theory Spec2Isabelle
  imports Main "HOL-Library.AList" "HOL-Library.Char_ord" "HOL-Library.List_Lexorder"
begin

section \<open>XML documents as ElementTree sees them\<close>

text \<open>
  Both scrapers read a schema through \<^verbatim>\<open>xml.etree.ElementTree\<close>. An element has a tag
  (with the namespace in braces), an attribute dictionary, an optional text, an optional
  tail (the text between its end tag and the next sibling) and its child elements in
  document order.
\<close>

datatype xml = Element (x_tag: string) (x_attrib: "(string \<times> string) list")
  (x_text: "string option") (x_tail: "string option") (x_kids: "xml list")

definition XS :: string where
  "XS = ''{http://www.w3.org/2001/XMLSchema}''"

text \<open>\<^verbatim>\<open>elem.get(key)\<close> and \<^verbatim>\<open>elem.get(key, default)\<close>.\<close>

definition get :: "xml \<Rightarrow> string \<Rightarrow> string option" where
  "get e k = map_of (x_attrib e) k"

definition get_or :: "xml \<Rightarrow> string \<Rightarrow> string \<Rightarrow> string" where
  "get_or e k d = (case get e k of None \<Rightarrow> d | Some v \<Rightarrow> v)"

text \<open>
  Python's truth value of an optional string: \<^verbatim>\<open>None\<close> and the empty string are false.
\<close>

definition truthy :: "string option \<Rightarrow> bool" where
  "truthy s = (case s of None \<Rightarrow> False | Some v \<Rightarrow> v \<noteq> [])"

text \<open>
  \<^verbatim>\<open>elem.iter()\<close> without the element itself: every proper descendant, in document order.
  This is what the path prefix \<^verbatim>\<open>.//\<close> ranges over.
\<close>

fun iter_desc :: "xml \<Rightarrow> xml list" where
  "iter_desc (Element t a x y ks) = concat (map (\<lambda>k. k # iter_desc k) ks)"

text \<open>The paths the scripts use: \<^verbatim>\<open>./T\<close> (and \<^verbatim>\<open>T\<close>), \<^verbatim>\<open>.//T\<close>, \<^verbatim>\<open>.//T[@name]\<close>, \<^verbatim>\<open>.//C/T\<close>.\<close>

definition findall_child :: "string \<Rightarrow> xml \<Rightarrow> xml list" where
  "findall_child t e = filter (\<lambda>k. x_tag k = t) (x_kids e)"

definition findall_desc :: "string \<Rightarrow> xml \<Rightarrow> xml list" where
  "findall_desc t e = filter (\<lambda>k. x_tag k = t) (iter_desc e)"

definition findall_desc_named :: "string \<Rightarrow> xml \<Rightarrow> (string \<times> xml) list" where
  "findall_desc_named t e =
     List.map_filter (\<lambda>k. case get k ''name'' of None \<Rightarrow> None | Some n \<Rightarrow> Some (n, k))
       (findall_desc t e)"

definition findall_desc_child :: "string \<Rightarrow> string \<Rightarrow> xml \<Rightarrow> xml list" where
  "findall_desc_child c t e = concat (map (findall_child t) (findall_desc c e))"

text \<open>\<^verbatim>\<open>find\<close> is the first match of \<^verbatim>\<open>findall\<close>, or \<^verbatim>\<open>None\<close>.\<close>

definition find_first :: "'a list \<Rightarrow> 'a option" where
  "find_first xs = (case xs of [] \<Rightarrow> None | x # _ \<Rightarrow> Some x)"

section \<open>Strings\<close>

text \<open>
  \<^verbatim>\<open>" ".join(s.split())\<close>: split at runs of white space, drop empty pieces, join with one
  space. Strings are byte lists here; the white space characters are the ASCII ones
  Python's \<^verbatim>\<open>str.split\<close> knows (tab, line feed, vertical tab, form feed, carriage return,
  the four separators 28 to 31 and the space).
\<close>

definition is_space :: "char \<Rightarrow> bool" where
  "is_space c = (let n = (of_char c :: nat) in (9 \<le> n \<and> n \<le> 13) \<or> (28 \<le> n \<and> n \<le> 32))"

fun split_ws :: "string \<Rightarrow> string \<Rightarrow> string list" where
  "split_ws cur [] = (if cur = [] then [] else [cur])"
| "split_ws cur (c # cs) =
     (if is_space c then (if cur = [] then split_ws [] cs else cur # split_ws [] cs)
      else split_ws (cur @ [c]) cs)"

fun join_sp :: "string list \<Rightarrow> string" where
  "join_sp [] = []"
| "join_sp [w] = w"
| "join_sp (w # ws) = w @ '' '' @ join_sp ws"

text \<open>\<^verbatim>\<open>str.lower()\<close> on the ASCII letters (schema names are ASCII identifiers).\<close>

definition lower_char :: "char \<Rightarrow> char" where
  "lower_char c =
     (case map_of (zip ''ABCDEFGHIJKLMNOPQRSTUVWXYZ'' ''abcdefghijklmnopqrstuvwxyz'') c of
        None \<Rightarrow> c | Some d \<Rightarrow> d)"

definition lower :: "string \<Rightarrow> string" where
  "lower s = map lower_char s"

section \<open>The data model\<close>

text \<open>
  Descriptors are Python dictionaries. A key that the code reads with \<^verbatim>\<open>.get\<close> may be
  absent, so every field is optional; dictionaries with string keys are association
  lists in insertion order, updated with \<^const>\<open>AList.update\<close> (an existing key keeps its
  place, a new key goes to the end).
\<close>

record attr_def =
  attr_type :: "string option"
  attr_required :: "bool option"
  attr_description :: "string option"
  attr_default :: "string option"
  attr_values :: "string list option"

type_synonym attrs = "(string \<times> attr_def) list"

text \<open>
  The keys of an element descriptor; \<open>el_schema\<close> is the key \<^verbatim>\<open>$schema\<close> that
  \<^verbatim>\<open>write_element\<close> adds, \<open>el_extra\<close> holds any further keys of a curated file with
  their values as opaque text. The type parameter is the representation of the
  \<^verbatim>\<open>attributes\<close> dictionary: the dictionary itself where only values matter, its address
  in a store where the sharing of the object matters.
\<close>

record 'a element_def =
  el_schema :: "string option"
  el_name :: "string option"
  el_namespace :: "string option"
  el_since :: "string option"
  el_description :: "string option"
  el_documentation :: "string option"
  el_parents :: "string list option"
  el_children :: "string list option"
  el_attributes :: "'a option"
  el_extra :: "(string \<times> string) list"

text \<open>\<^verbatim>\<open>d.get("children", [])\<close>, \<^verbatim>\<open>d.get("parents", [])\<close>, \<^verbatim>\<open>d.get("attributes", {})\<close>.\<close>

definition get_children :: "'a element_def \<Rightarrow> string list" where
  "get_children d = (case el_children d of None \<Rightarrow> [] | Some cs \<Rightarrow> cs)"

definition get_parents :: "'a element_def \<Rightarrow> string list" where
  "get_parents d = (case el_parents d of None \<Rightarrow> [] | Some ps \<Rightarrow> ps)"

definition get_attributes :: "attrs element_def \<Rightarrow> attrs" where
  "get_attributes d = (case el_attributes d of None \<Rightarrow> [] | Some as \<Rightarrow> as)"

text \<open>
  An entry of \<^verbatim>\<open>XsdParser.types\<close>: the result of \<^verbatim>\<open>_parse_complex_type\<close> (keys
  \<^verbatim>\<open>attributes\<close>, \<^verbatim>\<open>children\<close>) or of \<^verbatim>\<open>_parse_simple_type\<close> (key \<^verbatim>\<open>type\<close>, and
  \<^verbatim>\<open>values\<close> for an enumeration).
\<close>

datatype type_info = ComplexType attrs "string list" | SimpleType string "string list option"

fun ti_attributes :: "type_info \<Rightarrow> attrs" where
  "ti_attributes (ComplexType a c) = a"
| "ti_attributes (SimpleType t v) = []"

fun ti_children :: "type_info \<Rightarrow> string list" where
  "ti_children (ComplexType a c) = c"
| "ti_children (SimpleType t v) = []"

fun ti_type :: "type_info \<Rightarrow> string option" where
  "ti_type (ComplexType a c) = None"
| "ti_type (SimpleType t v) = Some t"

fun ti_values :: "type_info \<Rightarrow> string list" where
  "ti_values (SimpleType t (Some v)) = v"
| "ti_values _ = []"

record parser_state =
  elements :: "(string \<times> attrs element_def) list"
  types :: "(string \<times> type_info) list"
  groups :: "(string \<times> string list) list"

definition init_parser :: parser_state where
  "init_parser = \<lparr>elements = [], types = [], groups = []\<rparr>"

section \<open>The parser of update-from-xsd.py\<close>

text \<open>
  \<^verbatim>\<open>_get_documentation\<close>: the first \<^verbatim>\<open>xs:documentation\<close> descendant; its text, when there
  is one and it is not empty, with white space collapsed.
\<close>

definition get_documentation :: "xml \<Rightarrow> string option" where
  "get_documentation e =
     (case find_first (findall_desc (XS @ ''documentation'') e) of
        None \<Rightarrow> None
      | Some d \<Rightarrow> (if truthy (x_text d) then Some (join_sp (split_ws [] (the (x_text d)))) else None))"

text \<open>\<^verbatim>\<open>doc or default\<close>.\<close>

definition or_default :: "string option \<Rightarrow> string \<Rightarrow> string" where
  "or_default doc d = (if truthy doc then the doc else d)"

definition type_mapping :: "(string \<times> string) list" where
  "type_mapping =
     [(''xs:string'', ''string''), (''xs:boolean'', ''yesno''), (''xs:integer'', ''integer''),
      (''xs:int'', ''integer''), (''xs:positiveInteger'', ''integer''),
      (''xs:nonNegativeInteger'', ''integer''), (''YesNoType'', ''yesno''), (''Guid'', ''guid''),
      (''VersionType'', ''version'')]"

text \<open>
  \<^verbatim>\<open>_parse_attribute\<close> reads \<^verbatim>\<open>self.types\<close> as it is at the moment of the call.
\<close>

definition parse_attribute :: "(string \<times> type_info) list \<Rightarrow> xml \<Rightarrow> (string \<times> attr_def) option" where
  "parse_attribute tys a =
     (if \<not> truthy (get a ''name'') then None
      else
        let nm = the (get a ''name'');
            doc = get_documentation a;
            atype = get_or a ''type'' ''string'';
            use = get_or a ''use'' ''optional'';
            dflt = get a ''default'';
            mapped0 = (case map_of type_mapping atype of None \<Rightarrow> ''string'' | Some m \<Rightarrow> m);
            mapped = (case map_of tys atype of
                        None \<Rightarrow> mapped0
                      | Some ti \<Rightarrow> (if ti_type ti = Some ''enum'' then ''enum'' else mapped0))
        in Some (nm,
             \<lparr>attr_type = Some mapped,
              attr_required = Some (use = ''required''),
              attr_description = Some (or_default doc (''The '' @ nm @ '' attribute.'')),
              attr_default = (if truthy dflt then dflt else None),
              attr_values = (case map_of tys atype of
                               None \<Rightarrow> None
                             | Some ti \<Rightarrow> (if mapped = ''enum'' then Some (ti_values ti) else None))\<rparr>))"

text \<open>
  \<^verbatim>\<open>_parse_complex_type\<close>: the attributes anywhere below the type, then the \<^verbatim>\<open>ref\<close> of
  every element that is a direct child of a \<^verbatim>\<open>sequence\<close>, of a \<^verbatim>\<open>choice\<close>, of an \<^verbatim>\<open>all\<close>
  (one container kind after the other), then, for every \<^verbatim>\<open>group\<close> below the type whose
  \<^verbatim>\<open>ref\<close> is a key of \<^verbatim>\<open>self.groups\<close>, that group's list. Children are appended; nothing
  is removed.
\<close>

definition refs_of :: "xml list \<Rightarrow> string list" where
  "refs_of es = List.map_filter (\<lambda>c. if truthy (get c ''ref'') then get c ''ref'' else None) es"

definition parse_complex_type :: "parser_state \<Rightarrow> xml \<Rightarrow> type_info" where
  "parse_complex_type st te =
     (let atts = fold (\<lambda>a acc. case parse_attribute (types st) a of
                                  None \<Rightarrow> acc
                                | Some (n, d) \<Rightarrow> AList.update n d acc)
                   (findall_desc (XS @ ''attribute'') te) [];
          direct = concat (map (\<lambda>container. refs_of (findall_desc_child container (XS @ ''element'') te))
                     [XS @ ''sequence'', XS @ ''choice'', XS @ ''all'']);
          via_groups = concat (map (\<lambda>g. if truthy (get g ''ref'')
                                          then (case map_of (groups st) (the (get g ''ref'')) of
                                                  None \<Rightarrow> [] | Some cs \<Rightarrow> cs)
                                          else [])
                         (findall_desc (XS @ ''group'') te))
      in ComplexType atts (direct @ via_groups))"

definition parse_simple_type :: "xml \<Rightarrow> type_info" where
  "parse_simple_type te =
     (let enum_values = List.map_filter (\<lambda>e. if truthy (get e ''value'') then get e ''value'' else None)
                          (findall_desc (XS @ ''enumeration'') te)
      in if enum_values \<noteq> [] then SimpleType ''enum'' (Some enum_values)
         else SimpleType ''string'' None)"

definition parse_group :: "xml \<Rightarrow> string list" where
  "parse_group ge = refs_of (findall_desc (XS @ ''element'') ge)"

text \<open>
  \<^verbatim>\<open>_parse_element\<close>: \<^verbatim>\<open>None\<close> for an element without a name. A type name that is a key of
  \<^verbatim>\<open>self.types\<close> wins; otherwise the first \<^verbatim>\<open>complexType\<close> child, when there is one, is
  parsed in place.
\<close>

definition parse_element :: "parser_state \<Rightarrow> xml \<Rightarrow> string \<Rightarrow> attrs element_def option" where
  "parse_element st e ns =
     (if \<not> truthy (get e ''name'') then None
      else
        let nm = the (get e ''name'');
            doc = get_documentation e;
            known = (case get e ''type'' of
                       None \<Rightarrow> None
                     | Some tn \<Rightarrow> (if tn \<noteq> [] then map_of (types st) tn else None));
            ti = (case known of
                    Some t \<Rightarrow> Some t
                  | None \<Rightarrow> (case find_first (findall_child (XS @ ''complexType'') e) of
                               None \<Rightarrow> None
                             | Some ct \<Rightarrow> Some (parse_complex_type st ct)))
        in Some \<lparr>el_schema = None,
                 el_name = Some nm,
                 el_namespace = Some ns,
                 el_since = Some ''v4'',
                 el_description = Some (or_default doc (''The '' @ nm @ '' element.'')),
                 el_documentation = Some (''https://wixtoolset.org/docs/schema/wxs/'' @ lower nm @ ''/''),
                 el_parents = Some [],
                 el_children = Some (case ti of None \<Rightarrow> [] | Some t \<Rightarrow> ti_children t),
                 el_attributes = Some (case ti of None \<Rightarrow> [] | Some t \<Rightarrow> ti_attributes t),
                 el_extra = []\<rparr>)"

text \<open>
  \<^verbatim>\<open>parse_file\<close>. The document is the outcome of \<^verbatim>\<open>ET.parse\<close>: \<^verbatim>\<open>None\<close> stands for a
  \<^verbatim>\<open>ParseError\<close>, after which the method prints a message and returns. Otherwise the named
  complex types are stored first, then the named simple types, then the named groups,
  each loop reading the state the earlier iterations left; the top-level elements come
  last.
\<close>

definition store_complex_type :: "string \<times> xml \<Rightarrow> parser_state \<Rightarrow> parser_state" where
  "store_complex_type p st = st\<lparr>types := AList.update (fst p) (parse_complex_type st (snd p)) (types st)\<rparr>"

definition store_simple_type :: "string \<times> xml \<Rightarrow> parser_state \<Rightarrow> parser_state" where
  "store_simple_type p st = st\<lparr>types := AList.update (fst p) (parse_simple_type (snd p)) (types st)\<rparr>"

definition store_group :: "string \<times> xml \<Rightarrow> parser_state \<Rightarrow> parser_state" where
  "store_group p st = st\<lparr>groups := AList.update (fst p) (parse_group (snd p)) (groups st)\<rparr>"

definition store_element :: "string \<Rightarrow> xml \<Rightarrow> parser_state \<Rightarrow> parser_state" where
  "store_element ns e st =
     (case parse_element st e ns of
        None \<Rightarrow> st
      | Some d \<Rightarrow> st\<lparr>elements := AList.update (the (el_name d)) d (elements st)\<rparr>)"

definition parse_file :: "parser_state \<Rightarrow> xml option \<Rightarrow> string \<Rightarrow> parser_state" where
  "parse_file st doc ns =
     (case doc of
        None \<Rightarrow> st
      | Some root \<Rightarrow>
          (let st1 = fold store_complex_type (findall_desc_named (XS @ ''complexType'') root) st;
               st2 = fold store_simple_type (findall_desc_named (XS @ ''simpleType'') root) st1;
               st3 = fold store_group (findall_desc_named (XS @ ''group'') root) st2
           in fold (store_element ns) (findall_child (XS @ ''element'') root) st3))"

text \<open>
  \<^verbatim>\<open>resolve_relationships\<close>. The loop runs over the items of \<^verbatim>\<open>self.elements\<close>; it only
  ever appends to \<^verbatim>\<open>parents\<close> lists, so the keys and the \<^verbatim>\<open>children\<close> it reads are those
  of the dictionary at the start. Every descriptor of a parse run is its own object with
  its own \<^verbatim>\<open>parents\<close> list (\<^verbatim>\<open>_parse_element\<close> builds both), so an append reaches one
  entry only.
\<close>

type_synonym element_dict = "(string \<times> attrs element_def) list"

definition add_parent :: "string \<Rightarrow> string \<Rightarrow> element_dict \<Rightarrow> element_dict" where
  "add_parent nm child_name els =
     (case map_of els child_name of
        None \<Rightarrow> els
      | Some c \<Rightarrow> (if nm \<in> set (get_parents c) then els
                   else AList.update child_name (c\<lparr>el_parents := Some (get_parents c @ [nm])\<rparr>) els))"

definition resolve_items :: "element_dict \<Rightarrow> element_dict \<Rightarrow> element_dict" where
  "resolve_items items els = fold (\<lambda>(nm, element). fold (add_parent nm) (get_children element)) items els"

definition resolve_relationships :: "parser_state \<Rightarrow> parser_state" where
  "resolve_relationships st = st\<lparr>elements := resolve_items (elements st) (elements st)\<rparr>"

text \<open>
  One run hands \<^verbatim>\<open>parse_file\<close> a sequence of schema files, each with its namespace tag,
  starting from the empty parser.
\<close>

definition parse_files :: "(xml option \<times> string) list \<Rightarrow> parser_state" where
  "parse_files docs = fold (\<lambda>(doc, ns) st. parse_file st doc ns) docs init_parser"

section \<open>Merging into an existing descriptor\<close>

text \<open>
  \<^verbatim>\<open>merge_element\<close>, as the value it returns. The existing descriptor comes from a JSON
  file and is taken to have the shape of a descriptor (strings, lists of strings, a
  dictionary of attribute dictionaries), with any key possibly missing. One step of the
  loop over the extracted attributes:
\<close>

definition merge_attr :: "string \<times> attr_def \<Rightarrow> attrs \<Rightarrow> attrs" where
  "merge_attr p existing_attrs =
     (case map_of existing_attrs (fst p) of
        None \<Rightarrow> AList.update (fst p) (snd p) existing_attrs
      | Some e \<Rightarrow>
          (if \<not> truthy (attr_description e)
           then AList.update (fst p)
                  (e\<lparr>attr_description :=
                       Some (case attr_description (snd p) of None \<Rightarrow> [] | Some s \<Rightarrow> s)\<rparr>)
                  existing_attrs
           else existing_attrs))"

text \<open>
  \<^verbatim>\<open>sorted(set(old) | new)\<close>, built as the code does: a set of the old names, every new
  name added, the set sorted. Python orders strings by code point, lexicographically.
\<close>

definition merge_names :: "string list \<Rightarrow> string list \<Rightarrow> string list" where
  "merge_names old new = sorted_list_of_set (fold insert new (set old))"

definition merge_element :: "attrs element_def \<Rightarrow> attrs element_def \<Rightarrow> attrs element_def" where
  "merge_element existing extracted =
     (let r1 = (if el_description extracted \<noteq> None \<and> \<not> truthy (el_description existing)
                then existing\<lparr>el_description := el_description extracted\<rparr>
                else existing);
          r2 = r1\<lparr>el_attributes :=
                    Some (fold merge_attr (get_attributes extracted) (get_attributes existing))\<rparr>;
          r3 = r2\<lparr>el_children :=
                    Some (merge_names (get_children existing) (get_children extracted))\<rparr>
      in r3\<lparr>el_parents := Some (merge_names (get_parents existing) (get_parents extracted))\<rparr>)"

subsection \<open>The same function on a store\<close>

text \<open>
  \<^verbatim>\<open>existing.copy()\<close> is a shallow copy: the result has its own top-level dictionary but
  the same \<^verbatim>\<open>attributes\<close> object as \<^verbatim>\<open>existing\<close>, and the loop writes into that object and
  into the attribute dictionaries it holds. The store maps the address of an
  \<^verbatim>\<open>attributes\<close> dictionary to its items (attribute name, address of the attribute's own
  dictionary) and the address of an attribute dictionary to its fields. A descriptor
  holds the address of its \<^verbatim>\<open>attributes\<close> dictionary.
\<close>

record store =
  attr_dicts :: "nat \<Rightarrow> (string \<times> nat) list"
  attr_objs :: "nat \<Rightarrow> attr_def"
  next_dict :: nat

text \<open>\<^verbatim>\<open>{}\<close>: a new, empty dictionary at an unused address.\<close>

definition new_dict :: "store \<Rightarrow> store \<times> nat" where
  "new_dict h = (h\<lparr>attr_dicts := (attr_dicts h)(next_dict h := []), next_dict := Suc (next_dict h)\<rparr>,
                 next_dict h)"

text \<open>\<^verbatim>\<open>d.get("attributes", {}).items()\<close>, read in the store.\<close>

definition attr_items :: "store \<Rightarrow> nat element_def \<Rightarrow> (string \<times> nat) list" where
  "attr_items h d = (case el_attributes d of None \<Rightarrow> [] | Some b \<Rightarrow> attr_dicts h b)"

definition merge_attr_st :: "nat \<Rightarrow> string \<times> nat \<Rightarrow> store \<Rightarrow> store" where
  "merge_attr_st a p h =
     (case map_of (attr_dicts h a) (fst p) of
        None \<Rightarrow> h\<lparr>attr_dicts := (attr_dicts h)(a := AList.update (fst p) (snd p) (attr_dicts h a))\<rparr>
      | Some r \<Rightarrow>
          (if \<not> truthy (attr_description (attr_objs h r))
           then h\<lparr>attr_objs := (attr_objs h)
                  (r := (attr_objs h r)\<lparr>attr_description :=
                          Some (case attr_description (attr_objs h (snd p)) of
                                  None \<Rightarrow> [] | Some s \<Rightarrow> s)\<rparr>)\<rparr>
           else h))"

definition merge_element_st :: "store \<Rightarrow> nat element_def \<Rightarrow> nat element_def \<Rightarrow> store \<times> nat element_def" where
  "merge_element_st h existing extracted =
     (let r1 = (if el_description extracted \<noteq> None \<and> \<not> truthy (el_description existing)
                then existing\<lparr>el_description := el_description extracted\<rparr>
                else existing);
          (h1, a) = (case el_attributes existing of None \<Rightarrow> new_dict h | Some a \<Rightarrow> (h, a));
          items = attr_items h1 extracted;
          h2 = fold (merge_attr_st a) items h1;
          r2 = r1\<lparr>el_attributes := Some a\<rparr>;
          r3 = r2\<lparr>el_children :=
                    Some (merge_names (get_children existing) (get_children extracted))\<rparr>
      in (h2, r3\<lparr>el_parents := Some (merge_names (get_parents existing) (get_parents extracted))\<rparr>))"

text \<open>What a descriptor shows when its \<^verbatim>\<open>attributes\<close> are read through the store.\<close>

definition read_dict :: "store \<Rightarrow> nat \<Rightarrow> attrs" where
  "read_dict h a = map (\<lambda>(n, r). (n, attr_objs h r)) (attr_dicts h a)"

definition deref :: "store \<Rightarrow> nat element_def \<Rightarrow> attrs element_def" where
  "deref h d =
     \<lparr>el_schema = el_schema d, el_name = el_name d, el_namespace = el_namespace d,
      el_since = el_since d, el_description = el_description d,
      el_documentation = el_documentation d, el_parents = el_parents d,
      el_children = el_children d, el_attributes = map_option (read_dict h) (el_attributes d),
      el_extra = el_extra d\<rparr>"

section \<open>The write stage of update-from-xsd.py\<close>

text \<open>
  The elements directory maps a file name to what \<^verbatim>\<open>json.load\<close> makes of the file: text
  that is not JSON, or a descriptor (a JSON object of the descriptor's shape; a key whose
  value is \<^verbatim>\<open>null\<close> counts as missing). Whether a file can be opened for writing is the
  environment's choice (\<open>can_write\<close>); an exception that ends the run is a value.
\<close>

datatype file_content = Unparsable | Json "attrs element_def"

type_synonym disk = "string \<Rightarrow> file_content option"

datatype error = ParseError | KeyError string | IOError string

datatype outcome = Exit nat | Raised error

definition file_path :: "string \<Rightarrow> string" where
  "file_path nm = lower nm @ ''.json''"

definition load_existing_element :: "disk \<Rightarrow> string \<Rightarrow> attrs element_def option" where
  "load_existing_element dk nm =
     (case dk (file_path nm) of
        None \<Rightarrow> None
      | Some Unparsable \<Rightarrow> None
      | Some (Json d) \<Rightarrow> Some d)"

text \<open>\<^verbatim>\<open>if existing:\<close> is false for \<^verbatim>\<open>None\<close> and for the dictionary without keys.\<close>

definition empty_dict :: "attrs element_def" where
  "empty_dict =
     \<lparr>el_schema = None, el_name = None, el_namespace = None, el_since = None,
      el_description = None, el_documentation = None, el_parents = None, el_children = None,
      el_attributes = None, el_extra = []\<rparr>"

definition dict_truthy :: "attrs element_def option \<Rightarrow> bool" where
  "dict_truthy d = (case d of None \<Rightarrow> False | Some e \<Rightarrow> e \<noteq> empty_dict)"

text \<open>
  \<^verbatim>\<open>write_element\<close>: \<^verbatim>\<open>element["name"]\<close> raises \<^verbatim>\<open>KeyError\<close> when the key is missing; the
  \<^verbatim>\<open>$schema\<close> key is set unless the element brings its own; a dry run reports success and
  writes nothing; an \<^verbatim>\<open>IOError\<close> is caught and reported as \<^verbatim>\<open>False\<close>.
\<close>

definition with_schema :: "attrs element_def \<Rightarrow> attrs element_def" where
  "with_schema element =
     (if el_schema element = None then element\<lparr>el_schema := Some ''../schema/element.schema.json''\<rparr>
      else element)"

definition write_element :: "(string \<Rightarrow> bool) \<Rightarrow> disk \<Rightarrow> attrs element_def \<Rightarrow> bool \<Rightarrow> error + (bool \<times> disk)" where
  "write_element can_write dk element dry =
     (case el_name element of
        None \<Rightarrow> Inl (KeyError ''name'')
      | Some nm \<Rightarrow>
          (if dry then Inr (True, dk)
           else if can_write (file_path nm)
                then Inr (True, dk(file_path nm \<mapsto> Json (with_schema element)))
                else Inr (False, dk)))"

record args =
  force :: bool
  dry_run :: bool

record counters =
  created :: nat
  updated :: nat
  skipped :: nat

text \<open>One iteration of the loop \<^verbatim>\<open>for name, element in sorted(xsd_parser.elements.items())\<close>.\<close>

definition process_element :: "args \<Rightarrow> (string \<Rightarrow> bool) \<Rightarrow> string \<times> attrs element_def \<Rightarrow> disk \<times> counters \<Rightarrow> error + (disk \<times> counters)" where
  "process_element a can_write p s =
     (let dk = fst s; cnt = snd s; existing = load_existing_element dk (fst p) in
      if dict_truthy existing then
        (if force a then
           (case write_element can_write dk (merge_element (the existing) (snd p)) (dry_run a) of
              Inl e \<Rightarrow> Inl e
            | Inr (ok, dk') \<Rightarrow> Inr (dk', if ok then cnt\<lparr>updated := updated cnt + 1\<rparr> else cnt))
         else Inr (dk, cnt\<lparr>skipped := skipped cnt + 1\<rparr>))
      else
        (case write_element can_write dk (snd p) (dry_run a) of
           Inl e \<Rightarrow> Inl e
         | Inr (ok, dk') \<Rightarrow> Inr (dk', if ok then cnt\<lparr>created := created cnt + 1\<rparr> else cnt)))"

text \<open>The loop stops at an exception, with the files written so far in place.\<close>

fun process_elements :: "args \<Rightarrow> (string \<Rightarrow> bool) \<Rightarrow> (string \<times> attrs element_def) list \<Rightarrow> disk \<times> counters \<Rightarrow> error option \<times> disk \<times> counters" where
  "process_elements a can_write [] s = (None, s)"
| "process_elements a can_write (p # ps) s =
     (case process_element a can_write p s of
        Inl e \<Rightarrow> (Some e, s)
      | Inr s' \<Rightarrow> process_elements a can_write ps s')"

text \<open>
  \<^verbatim>\<open>main\<close>. What the run reads is either a local schema path that does not exist, or the
  schema files that reach \<^verbatim>\<open>parse_file\<close>, in order, each well-formed or not (a namespace
  whose download failed or that is not cached never reaches \<^verbatim>\<open>parse_file\<close>). The items
  are sorted by name: the keys of a dictionary differ, so the comparison of two items
  never reaches the descriptors. The result is the exit status or the exception, the
  elements directory and the counters.
\<close>

datatype schema_input = LocalMissing | Schemas "(xml option \<times> string) list"

definition no_counts :: counters where
  "no_counts = \<lparr>created = 0, updated = 0, skipped = 0\<rparr>"

definition main :: "args \<Rightarrow> (string \<Rightarrow> bool) \<Rightarrow> schema_input \<Rightarrow> disk \<Rightarrow> outcome \<times> disk \<times> counters" where
  "main a can_write src dk =
     (case src of
        LocalMissing \<Rightarrow> (Exit 1, dk, no_counts)
      | Schemas docs \<Rightarrow>
          (let st = resolve_relationships (parse_files docs) in
           if elements st = [] then (Exit 1, dk, no_counts)
           else (case process_elements a can_write (sort_key fst (elements st)) (dk, no_counts) of
                   (None, s) \<Rightarrow> (Exit 0, s)
                 | (Some e, s) \<Rightarrow> (Raised e, s))))"

section \<open>extract-xsd.py\<close>

text \<open>
  The second scraper. Its functions that share a name with one of update-from-xsd.py
  carry the suffix \<open>_ex\<close>.

  \<^verbatim>\<open>itertext\<close> yields an element's text, then for every child the child's texts and the
  child's tail; \<^verbatim>\<open>strip\<close> drops white space at both ends; \<^verbatim>\<open>re.sub(r"\s+", " ", doc)\<close>
  puts one space for every run of white space.
\<close>

fun itertext :: "xml \<Rightarrow> string list" where
  "itertext (Element t a x y ks) =
     (if truthy x then [the x] else []) @
     concat (map (\<lambda>k. itertext k @ (if truthy (x_tail k) then [the (x_tail k)] else [])) ks)"

definition strip :: "string \<Rightarrow> string" where
  "strip s = rev (dropWhile is_space (rev (dropWhile is_space s)))"

fun sub_ws :: "bool \<Rightarrow> string \<Rightarrow> string" where
  "sub_ws in_run [] = []"
| "sub_ws in_run (c # cs) =
     (if is_space c then (if in_run then sub_ws True cs else CHR '' '' # sub_ws True cs)
      else c # sub_ws False cs)"

definition parse_documentation :: "xml \<Rightarrow> string" where
  "parse_documentation e =
     (case find_first (findall_child (XS @ ''annotation'') e) of
        None \<Rightarrow> []
      | Some an \<Rightarrow>
          (case find_first (findall_child (XS @ ''documentation'') an) of
             None \<Rightarrow> []
           | Some d \<Rightarrow> sub_ws False (strip (concat (itertext d)))))"

text \<open>\<^verbatim>\<open>s.split(":")[-1]\<close>: what follows the last colon.\<close>

definition after_colon :: "string \<Rightarrow> string" where
  "after_colon s = rev (takeWhile (\<lambda>c. c \<noteq> CHR '':'') (rev s))"

definition type_map :: "(string \<times> string) list" where
  "type_map =
     [(''string'', ''string''), (''NMTOKEN'', ''string''), (''NMTOKENS'', ''string''),
      (''token'', ''string''), (''normalizedString'', ''string''), (''integer'', ''integer''),
      (''int'', ''integer''), (''positiveInteger'', ''integer''),
      (''nonNegativeInteger'', ''integer''), (''long'', ''integer''), (''short'', ''integer''),
      (''boolean'', ''yesno''), (''Guid'', ''guid''), (''GuidType'', ''guid''),
      (''ComponentGuid'', ''guid''), (''AutogenGuid'', ''guid''), (''YesNoType'', ''yesno''),
      (''YesNoDefaultType'', ''yesno''), (''YesNoButtonType'', ''yesno''),
      (''VersionType'', ''version''), (''LocalizableInteger'', ''integer'')]"

definition parse_type_name :: "string option \<Rightarrow> string" where
  "parse_type_name type_str =
     (case type_str of
        None \<Rightarrow> ''string''
      | Some s \<Rightarrow> (case map_of type_map (after_colon s) of None \<Rightarrow> ''string'' | Some m \<Rightarrow> m))"

definition parse_enum_values :: "xml \<Rightarrow> string list" where
  "parse_enum_values simple_type =
     (case find_first (findall_child (XS @ ''restriction'') simple_type) of
        None \<Rightarrow> []
      | Some restriction \<Rightarrow>
          List.map_filter (\<lambda>e. if truthy (get e ''value'') then get e ''value'' else None)
            (findall_child (XS @ ''enumeration'') restriction))"

definition parse_attribute_ex :: "xml \<Rightarrow> (string \<times> string list) list \<Rightarrow> attr_def" where
  "parse_attribute_ex attr_elem simple_types =
     (let atype = get_or attr_elem ''type'' ''string'';
          use = get_or attr_elem ''use'' ''optional'';
          dflt = get attr_elem ''default'';
          d0 = \<lparr>attr_type = Some (parse_type_name (Some atype)),
                attr_required = Some (use = ''required''),
                attr_description = Some (parse_documentation attr_elem),
                attr_default = (if truthy dflt then dflt else None),
                attr_values = None\<rparr>;
          type_name = (if atype \<noteq> [] then Some (after_colon atype) else None);
          d1 = (if truthy type_name
                then (case map_of simple_types (the type_name) of
                        None \<Rightarrow> d0
                      | Some vs \<Rightarrow> (if vs \<noteq> [] then d0\<lparr>attr_type := Some ''enum'', attr_values := Some vs\<rparr>
                                    else d0))
                else d0)
      in case find_first (findall_child (XS @ ''simpleType'') attr_elem) of
           None \<Rightarrow> d1
         | Some inline_type \<Rightarrow>
             (let vs = parse_enum_values inline_type in
              if vs \<noteq> [] then d1\<lparr>attr_type := Some ''enum'', attr_values := Some vs\<rparr> else d1))"

text \<open>
  The child loop of \<^verbatim>\<open>parse_element\<close>: \<^verbatim>\<open>ref\<close> or else \<^verbatim>\<open>name\<close>, without its prefix, appended
  only when it is not in the list yet.
\<close>

definition add_child :: "xml \<Rightarrow> string list \<Rightarrow> string list" where
  "add_child child_ref children =
     (let child_name = (if truthy (get child_ref ''ref'') then get child_ref ''ref''
                        else get child_ref ''name'')
      in if truthy child_name
         then (let c = after_colon (the child_name) in
               if c \<notin> set children then children @ [c] else children)
         else children)"

definition parse_element_ex :: "xml \<Rightarrow> (string \<times> string list) list \<Rightarrow> (string \<times> xml) list \<Rightarrow> attrs element_def option" where
  "parse_element_ex elem simple_types all_elements =
     (if \<not> truthy (get elem ''name'') then None
      else
        let nm = the (get elem ''name'');
            complex_type =
              (case find_first (findall_child (XS @ ''complexType'') elem) of
                 Some ct \<Rightarrow> Some ct
               | None \<Rightarrow> (if truthy (get elem ''type'')
                          then map_of all_elements (''type:'' @ after_colon (the (get elem ''type'')))
                          else None))
        in Some \<lparr>el_schema = None,
                 el_name = Some nm,
                 el_namespace = Some ''wix'',
                 el_since = Some ''v4'',
                 el_description = Some (parse_documentation elem),
                 el_documentation = Some (''https://wixtoolset.org/docs/schema/wxs/'' @ lower nm @ ''/''),
                 el_parents = Some [],
                 el_children = Some (case complex_type of
                                       None \<Rightarrow> []
                                     | Some ct \<Rightarrow> fold add_child (findall_desc (XS @ ''element'') ct) []),
                 el_attributes = Some (case complex_type of
                                         None \<Rightarrow> []
                                       | Some ct \<Rightarrow>
                                           fold (\<lambda>attr acc. if truthy (get attr ''name'')
                                                   then AList.update (the (get attr ''name''))
                                                          (parse_attribute_ex attr simple_types) acc
                                                   else acc)
                                             (findall_desc (XS @ ''attribute'') ct) []),
                 el_extra = []\<rparr>)"

definition extract_simple_types :: "xml \<Rightarrow> (string \<times> string list) list" where
  "extract_simple_types root =
     fold (\<lambda>simple_type acc.
             if truthy (get simple_type ''name'') \<and> parse_enum_values simple_type \<noteq> []
             then AList.update (the (get simple_type ''name'')) (parse_enum_values simple_type) acc
             else acc)
       (findall_desc (XS @ ''simpleType'') root) []"

definition extract_elements :: "xml \<Rightarrow> (string \<times> string list) list \<Rightarrow> attrs element_def list" where
  "extract_elements root simple_types =
     (let all_elements =
            fold (\<lambda>complex_type acc.
                    if truthy (get complex_type ''name'')
                    then AList.update (''type:'' @ the (get complex_type ''name'')) complex_type acc
                    else acc)
              (findall_child (XS @ ''complexType'') root) []
      in List.map_filter (\<lambda>elem. parse_element_ex elem simple_types all_elements)
           (findall_child (XS @ ''element'') root))"




section \<open>Notions used in the proofs, and example inputs\<close>

text \<open>
  \<open>grows els els'\<close>: the two dictionaries have the same keys, and every entry of the
  second has the children, the name and the attributes of its entry in the first and
  at least its parents. \<open>keyed els\<close>: every entry is stored under its own name.
\<close>

definition grows :: "element_dict \<Rightarrow> element_dict \<Rightarrow> bool" where
  "grows els els' =
     (\<forall>k. rel_option (\<lambda>d d'. el_children d' = el_children d \<and> el_name d' = el_name d \<and>
                              el_attributes d' = el_attributes d \<and>
                              set (get_parents d) \<subseteq> set (get_parents d'))
            (map_of els k) (map_of els' k))"

definition keyed :: "element_dict \<Rightarrow> bool" where
  "keyed els = (\<forall>k d. map_of els k = Some d \<longrightarrow> el_name d = Some k)"

text \<open>
  The names of the complex and simple types a document defines, and the names defined by
  the well-formed documents of a run.
\<close>

definition type_names :: "xml \<Rightarrow> string set" where
  "type_names root =
     fst ` set (findall_desc_named (XS @ ''complexType'') root) \<union>
     fst ` set (findall_desc_named (XS @ ''simpleType'') root)"

definition defined_types :: "(xml option \<times> string) list \<Rightarrow> string set" where
  "defined_types docs =
     (\<Union>p\<in>set docs. case fst p of None \<Rightarrow> {} | Some root \<Rightarrow> type_names root)"

text \<open>
  A schema with two top-level elements: \<open>Outer\<close>, whose inline type is a sequence with a
  reference to \<open>Inner\<close>, and \<open>Inner\<close>.
\<close>

definition xs_node :: "string \<Rightarrow> (string \<times> string) list \<Rightarrow> xml list \<Rightarrow> xml" where
  "xs_node t a ks = Element (XS @ t) a None None ks"

definition ex_root :: xml where
  "ex_root = xs_node ''schema'' []
     [xs_node ''element'' [(''name'', ''Outer'')]
        [xs_node ''complexType'' []
           [xs_node ''sequence'' [] [xs_node ''element'' [(''ref'', ''Inner'')] []]]],
      xs_node ''element'' [(''name'', ''Inner'')] []]"

definition ex_outer :: "attrs element_def" where
  "ex_outer =
     \<lparr>el_schema = None, el_name = Some ''Outer'', el_namespace = Some ''wxs'',
      el_since = Some ''v4'', el_description = Some ''The Outer element.'',
      el_documentation = Some ''https://wixtoolset.org/docs/schema/wxs/outer/'',
      el_parents = Some [], el_children = Some [''Inner''], el_attributes = Some [],
      el_extra = []\<rparr>"

definition ex_inner :: "attrs element_def" where
  "ex_inner =
     \<lparr>el_schema = None, el_name = Some ''Inner'', el_namespace = Some ''wxs'',
      el_since = Some ''v4'', el_description = Some ''The Inner element.'',
      el_documentation = Some ''https://wixtoolset.org/docs/schema/wxs/inner/'',
      el_parents = Some [''Outer''], el_children = Some [], el_attributes = Some [],
      el_extra = []\<rparr>"

text \<open>
  A curated descriptor as a file holds it, and what a run extracts for the same element.
  The attribute \<open>Id\<close> is in both, with a different type, requiredness and default.
\<close>

definition ex_id :: attr_def where
  "ex_id = \<lparr>attr_type = Some ''string'', attr_required = Some False,
            attr_description = Some ''Curated text.'', attr_default = None,
            attr_values = None\<rparr>"

definition ex_existing :: "attrs element_def" where
  "ex_existing =
     \<lparr>el_schema = Some ''../schema/element.schema.json'', el_name = Some ''Foo'',
      el_namespace = Some ''wix'', el_since = Some ''v4'',
      el_description = Some ''A hand-written description.'',
      el_documentation = Some ''https://wixtoolset.org/docs/schema/wxs/foo/'',
      el_parents = Some [''Wix''], el_children = Some [''B'', ''A''],
      el_attributes = Some [(''Id'', ex_id)],
      el_extra = []\<rparr>"

definition ex_extracted :: "attrs element_def" where
  "ex_extracted =
     \<lparr>el_schema = None, el_name = Some ''Foo'',
      el_namespace = Some ''wxs'', el_since = Some ''v4'',
      el_description = Some ''The Foo element.'',
      el_documentation = Some ''https://wixtoolset.org/docs/schema/wxs/foo/'',
      el_parents = Some [''Package''], el_children = Some [''C'', ''A''],
      el_attributes = Some
        [(''Id'', \<lparr>attr_type = Some ''integer'', attr_required = Some True,
                   attr_description = Some ''The Id attribute.'', attr_default = Some ''1'',
                   attr_values = None\<rparr>),
         (''Name'', \<lparr>attr_type = Some ''string'', attr_required = Some False,
                   attr_description = Some ''The Name attribute.'', attr_default = None,
                   attr_values = None\<rparr>)],
      el_extra = []\<rparr>"

text \<open>
  A descriptor file whose \<open>children\<close> name \<open>A\<close> twice, as update-from-xsd.py itself writes
  it for a schema that refers to \<open>A\<close> twice, and an extraction that finds \<open>A\<close>.
\<close>

definition ex_dup_existing :: "attrs element_def" where
  "ex_dup_existing = ex_existing\<lparr>el_children := Some [''A'', ''A'']\<rparr>"

definition ex_dup_extracted :: "attrs element_def" where
  "ex_dup_extracted = ex_extracted\<lparr>el_children := Some [''A'']\<rparr>"

text \<open>
  The same two descriptors as objects in a store: the \<open>attributes\<close> dictionary of the
  existing descriptor at address 0 with its \<open>Id\<close> at address 10 (here without a
  description), that of the extraction at address 1 with \<open>Id\<close> at 20 and \<open>Name\<close> at 21.
\<close>

definition ex_store :: store where
  "ex_store =
     \<lparr>attr_dicts = (\<lambda>_. [])(0 := [(''Id'', 10)], 1 := [(''Id'', 20), (''Name'', 21)]),
      attr_objs = (\<lambda>_. ex_id)
        (10 := ex_id\<lparr>attr_description := Some []\<rparr>,
         20 := \<lparr>attr_type = Some ''integer'', attr_required = Some True,
                 attr_description = Some ''The Id attribute.'', attr_default = Some ''1'',
                 attr_values = None\<rparr>,
         21 := \<lparr>attr_type = Some ''string'', attr_required = Some False,
                 attr_description = Some ''The Name attribute.'', attr_default = None,
                 attr_values = None\<rparr>),
      next_dict = 2\<rparr>"

definition ex_existing_ref :: "nat element_def" where
  "ex_existing_ref =
     \<lparr>el_schema = Some ''../schema/element.schema.json'', el_name = Some ''Foo'',
      el_namespace = Some ''wix'', el_since = Some ''v4'',
      el_description = Some ''A hand-written description.'',
      el_documentation = Some ''https://wixtoolset.org/docs/schema/wxs/foo/'',
      el_parents = Some [''Wix''], el_children = Some [''B'', ''A''],
      el_attributes = Some 0, el_extra = []\<rparr>"

definition ex_extracted_ref :: "nat element_def" where
  "ex_extracted_ref =
     \<lparr>el_schema = None, el_name = Some ''Foo'',
      el_namespace = Some ''wxs'', el_since = Some ''v4'',
      el_description = Some ''The Foo element.'',
      el_documentation = Some ''https://wixtoolset.org/docs/schema/wxs/foo/'',
      el_parents = Some [''Package''], el_children = Some [''C'', ''A''],
      el_attributes = Some 1, el_extra = []\<rparr>"

text \<open>
  Three more schemas. In the first, \<open>Outer\<close> has the named type \<open>OuterType\<close>, whose sequence
  refers to the group \<open>G\<close>, and \<open>G\<close> holds a reference to \<open>Inner\<close>. The second is the same
  with the type written inline in \<open>Outer\<close>. In the third, the inline type of \<open>Dup\<close> refers to
  \<open>A\<close> twice and to a group that holds \<open>A\<close>.
\<close>

definition ex_group_root :: xml where
  "ex_group_root = xs_node ''schema'' []
     [xs_node ''complexType'' [(''name'', ''OuterType'')]
        [xs_node ''sequence'' [] [xs_node ''group'' [(''ref'', ''G'')] []]],
      xs_node ''group'' [(''name'', ''G'')]
        [xs_node ''choice'' [] [xs_node ''element'' [(''ref'', ''Inner'')] []]],
      xs_node ''element'' [(''name'', ''Outer''), (''type'', ''OuterType'')] [],
      xs_node ''element'' [(''name'', ''Inner'')] []]"

definition ex_group_inline_root :: xml where
  "ex_group_inline_root = xs_node ''schema'' []
     [xs_node ''group'' [(''name'', ''G'')]
        [xs_node ''choice'' [] [xs_node ''element'' [(''ref'', ''Inner'')] []]],
      xs_node ''element'' [(''name'', ''Outer'')]
        [xs_node ''complexType'' []
           [xs_node ''sequence'' [] [xs_node ''group'' [(''ref'', ''G'')] []]]],
      xs_node ''element'' [(''name'', ''Inner'')] []]"

definition ex_dup_root :: xml where
  "ex_dup_root = xs_node ''schema'' []
     [xs_node ''group'' [(''name'', ''G'')]
        [xs_node ''sequence'' [] [xs_node ''element'' [(''ref'', ''A'')] []]],
      xs_node ''element'' [(''name'', ''Dup'')]
        [xs_node ''complexType'' []
           [xs_node ''sequence'' []
              [xs_node ''element'' [(''ref'', ''A'')] [],
               xs_node ''element'' [(''ref'', ''A'')] [],
               xs_node ''group'' [(''ref'', ''G'')] []]]],
      xs_node ''element'' [(''name'', ''A'')] []]"

text \<open>
  An element whose type is defined nowhere, an attribute of an unknown type, a schema
  that defines that element's type, a schema that holds the element and nothing else, and
  a type that refers to the group \<open>G\<close> and to a group that is defined nowhere.
\<close>

definition ex_lonely :: xml where
  "ex_lonely = xs_node ''element'' [(''name'', ''Lonely''), (''type'', ''MissingType'')] []"

definition ex_odd_attribute :: xml where
  "ex_odd_attribute = xs_node ''attribute'' [(''name'', ''Odd''), (''type'', ''UnknownType'')] []"

definition ex_typed_root :: xml where
  "ex_typed_root = xs_node ''schema'' []
     [xs_node ''complexType'' [(''name'', ''MissingType'')]
        [xs_node ''sequence'' [] [xs_node ''element'' [(''ref'', ''Kid'')] []],
         xs_node ''attribute'' [(''name'', ''X'')] []]]"

definition ex_lonely_root :: xml where
  "ex_lonely_root = xs_node ''schema'' [] [ex_lonely]"

definition ex_mixed_group_type :: xml where
  "ex_mixed_group_type = xs_node ''complexType'' []
     [xs_node ''sequence'' []
        [xs_node ''element'' [(''ref'', ''B'')] [],
         xs_node ''group'' [(''ref'', ''G'')] [],
         xs_node ''group'' [(''ref'', ''Nowhere'')] []]]"


definition ex_old_outer :: "attrs element_def" where
  "ex_old_outer =
     \<lparr>el_schema = Some ''../schema/element.schema.json'', el_name = Some ''Outer'',
      el_namespace = Some ''wix'', el_since = Some ''v4'',
      el_description = Some ''Curated words about Outer.'',
      el_documentation = Some ''https://wixtoolset.org/docs/schema/wxs/outer/'',
      el_parents = Some [], el_children = Some [], el_attributes = Some [],
      el_extra = []\<rparr>"

definition ex_disk :: disk where
  "ex_disk = (\<lambda>_. None)(''outer.json'' \<mapsto> Json ex_old_outer)"


definition all_writable :: "string \<Rightarrow> bool" where
  "all_writable path = True"

definition ex_args :: "bool \<Rightarrow> bool \<Rightarrow> args" where
  "ex_args f d = \<lparr>force = f, dry_run = d\<rparr>"

section \<open>Relationship resolution\<close>

lemma grows_refl: "grows els els"
  by (simp add: grows_def option.rel_refl)

lemma grows_trans:
  assumes "grows a b" and "grows b c"
  shows "grows a c"
  unfolding grows_def
proof
  fix k
  from assms have
    "rel_option (\<lambda>d d'. el_children d' = el_children d \<and> el_name d' = el_name d \<and>
                              el_attributes d' = el_attributes d \<and>
                         set (get_parents d) \<subseteq> set (get_parents d')) (map_of a k) (map_of b k)"
    "rel_option (\<lambda>d d'. el_children d' = el_children d \<and> el_name d' = el_name d \<and>
                              el_attributes d' = el_attributes d \<and>
                         set (get_parents d) \<subseteq> set (get_parents d')) (map_of b k) (map_of c k)"
    by (simp_all add: grows_def)
  then show
    "rel_option (\<lambda>d d'. el_children d' = el_children d \<and> el_name d' = el_name d \<and>
                              el_attributes d' = el_attributes d \<and>
                         set (get_parents d) \<subseteq> set (get_parents d')) (map_of a k) (map_of c k)"
    by (cases "map_of a k"; cases "map_of b k"; cases "map_of c k") auto
qed

lemma grows_add_parent: "grows els (add_parent n c els)"
  by (auto simp: grows_def add_parent_def update_conv' get_parents_def option.rel_refl
      split: option.splits)

lemma add_parent_adds:
  "map_of els c = Some d \<Longrightarrow>
   \<exists>d'. map_of (add_parent n c els) c = Some d' \<and> n \<in> set (get_parents d')"
  by (auto simp: add_parent_def update_conv' get_parents_def)

lemma grows_keeps:
  "grows a b \<Longrightarrow> map_of a c = Some d \<Longrightarrow> n \<in> set (get_parents d) \<Longrightarrow>
   \<exists>d'. map_of b c = Some d' \<and> n \<in> set (get_parents d')"
  unfolding grows_def
  by (erule_tac x=c in allE, cases "map_of b c") auto

lemma grows_dom: "grows a b \<Longrightarrow> map_of a c = Some d \<Longrightarrow> \<exists>d'. map_of b c = Some d'"
  unfolding grows_def
  by (erule_tac x=c in allE, cases "map_of b c") auto

lemma fold_add_parent:
  "grows els (fold (add_parent n) cs els) \<and>
   (\<forall>c\<in>set cs. \<forall>d. map_of els c = Some d \<longrightarrow>
      (\<exists>d'. map_of (fold (add_parent n) cs els) c = Some d' \<and> n \<in> set (get_parents d')))"
proof (induction cs arbitrary: els)
  case Nil
  show ?case by (simp add: grows_refl)
next
  case (Cons a cs)
  let ?e1 = "add_parent n a els"
  have g1: "grows els ?e1" by (rule grows_add_parent)
  have g2: "grows ?e1 (fold (add_parent n) cs ?e1)" using Cons.IH[of ?e1] by blast
  have g: "grows els (fold (add_parent n) (a # cs) els)"
    using grows_trans[OF g1 g2] by simp
  have "\<exists>d'. map_of (fold (add_parent n) (a # cs) els) c = Some d' \<and> n \<in> set (get_parents d')"
    if c: "c \<in> set (a # cs)" and d: "map_of els c = Some d" for c d
  proof (cases "c = a")
    case True
    from add_parent_adds[OF d, of n] True
    obtain d1 where "map_of ?e1 c = Some d1" "n \<in> set (get_parents d1)" by blast
    from grows_keeps[OF g2 this] show ?thesis by simp
  next
    case False
    with c have "c \<in> set cs" by simp
    moreover from grows_dom[OF g1 d] obtain d1 where "map_of ?e1 c = Some d1" by blast
    ultimately show ?thesis using Cons.IH[of ?e1] by simp
  qed
  with g show ?case by blast
qed

lemma resolve_items_spec:
  "grows els (resolve_items items els) \<and>
   (\<forall>(n, e)\<in>set items. \<forall>c\<in>set (get_children e). \<forall>d. map_of els c = Some d \<longrightarrow>
      (\<exists>d'. map_of (resolve_items items els) c = Some d' \<and> n \<in> set (get_parents d')))"
proof (induction items arbitrary: els)
  case Nil
  show ?case by (simp add: resolve_items_def grows_refl)
next
  case (Cons it items)
  obtain n0 e0 where it: "it = (n0, e0)" by (cases it)
  let ?e1 = "fold (add_parent n0) (get_children e0) els"
  have step: "resolve_items (it # items) els = resolve_items items ?e1"
    by (simp add: resolve_items_def it)
  have g1: "grows els ?e1" using fold_add_parent by blast
  have g2: "grows ?e1 (resolve_items items ?e1)" using Cons.IH[of ?e1] by blast
  have g: "grows els (resolve_items (it # items) els)"
    using grows_trans[OF g1 g2] step by simp
  have "\<exists>d'. map_of (resolve_items (it # items) els) c = Some d' \<and> n \<in> set (get_parents d')"
    if ne: "(n, e) \<in> set (it # items)" and c: "c \<in> set (get_children e)"
      and d: "map_of els c = Some d" for n e c d
  proof (cases "(n, e) = it")
    case True
    then have "n = n0" "e = e0" using it by simp_all
    with fold_add_parent[of els n0 "get_children e0"] c d
    obtain d1 where "map_of ?e1 c = Some d1" "n \<in> set (get_parents d1)" by blast
    from grows_keeps[OF g2 this] step show ?thesis by simp
  next
    case False
    with ne have "(n, e) \<in> set items" by simp
    moreover from grows_dom[OF g1 d] obtain d1 where "map_of ?e1 c = Some d1" by blast
    ultimately show ?thesis using Cons.IH[of ?e1] c step by fastforce
  qed
  with g show ?case by blast
qed

text \<open>A parse run stores every descriptor under its own name.\<close>

lemma elements_fold_complex: "elements (fold store_complex_type xs st) = elements st"
  by (induction xs arbitrary: st) (simp_all add: store_complex_type_def)

lemma elements_fold_simple: "elements (fold store_simple_type xs st) = elements st"
  by (induction xs arbitrary: st) (simp_all add: store_simple_type_def)

lemma elements_fold_group: "elements (fold store_group xs st) = elements st"
  by (induction xs arbitrary: st) (simp_all add: store_group_def)

lemma parse_element_name: "parse_element st e ns = Some d \<Longrightarrow> el_name d \<noteq> None"
  by (auto simp: parse_element_def Let_def split: if_splits)

lemma keyed_store_element: "keyed (elements st) \<Longrightarrow> keyed (elements (store_element ns e st))"
  by (auto simp: keyed_def store_element_def update_conv' dest: parse_element_name
      split: option.splits)

lemma keyed_fold_store_element:
  "keyed (elements st) \<Longrightarrow> keyed (elements (fold (store_element ns) es st))"
  by (induction es arbitrary: st) (simp_all add: keyed_store_element)

lemma keyed_parse_file: "keyed (elements st) \<Longrightarrow> keyed (elements (parse_file st doc ns))"
  by (cases doc)
     (simp_all add: parse_file_def Let_def keyed_fold_store_element elements_fold_complex
        elements_fold_simple elements_fold_group)

lemma keyed_fold_parse_file:
  "keyed (elements st) \<Longrightarrow>
   keyed (elements (fold (\<lambda>(doc, ns) st. parse_file st doc ns) docs st))"
  by (induction docs arbitrary: st) (auto simp: keyed_parse_file)

lemma keyed_parse_files: "keyed (elements (parse_files docs))"
  unfolding parse_files_def
  by (rule keyed_fold_parse_file) (simp add: keyed_def init_parser_def)

text \<open>
  Claim C1. After \<^verbatim>\<open>resolve_relationships\<close> has run over the descriptors of a parse run
  (any sequence of schema files), take any descriptor \<open>P\<close> of the dictionary, stored under
  \<open>p\<close>, and any name \<open>c\<close> among its children that is itself a key of the dictionary, with
  descriptor \<open>C\<close>: then \<open>p\<close> is the name of \<open>P\<close> and \<open>p\<close> is in the parents of \<open>C\<close>.
\<close>

theorem parents_inverse_of_children:
  assumes st: "st = resolve_relationships (parse_files docs)"
    and P: "map_of (elements st) p = Some P"
    and c: "c \<in> set (get_children P)"
    and C: "map_of (elements st) c = Some C"
  shows "el_name P = Some p \<and> p \<in> set (get_parents C)"
proof -
  let ?els = "elements (parse_files docs)"
  have els: "elements st = resolve_items ?els ?els"
    by (simp add: st resolve_relationships_def)
  have g: "grows ?els (elements st)"
    using resolve_items_spec[of ?els ?els] els by simp
  from g P obtain P0 where P0: "map_of ?els p = Some P0" "el_children P = el_children P0"
      "el_name P = el_name P0"
    unfolding grows_def by (erule_tac x=p in allE, cases "map_of ?els p") auto
  from g C obtain C0 where C0: "map_of ?els c = Some C0"
    unfolding grows_def by (erule_tac x=c in allE, cases "map_of ?els c") auto
  have nm: "el_name P = Some p"
    using keyed_parse_files[of docs] P0 by (simp add: keyed_def)
  have "(p, P0) \<in> set ?els" using P0(1) by (rule map_of_SomeD)
  moreover have "c \<in> set (get_children P0)" using c P0(2) by (simp add: get_children_def)
  ultimately obtain d' where
    "map_of (resolve_items ?els ?els) c = Some d'" "p \<in> set (get_parents d')"
    using resolve_items_spec[of ?els ?els] C0 by blast
  with C els have "p \<in> set (get_parents C)" by simp
  with nm show ?thesis by simp
qed

theorem parents_inverse_of_children_witness:
  "map_of (elements (resolve_relationships (parse_files [(Some ex_root, ''wxs'')]))) ''Outer''
     = Some ex_outer \<and>
   ''Inner'' \<in> set (get_children ex_outer) \<and>
   map_of (elements (resolve_relationships (parse_files [(Some ex_root, ''wxs'')]))) ''Inner''
     = Some ex_inner \<and>
   el_name ex_outer = Some ''Outer'' \<and> ''Outer'' \<in> set (get_parents ex_inner)"
proof -
  have P: "map_of (elements (resolve_relationships (parse_files [(Some ex_root, ''wxs'')])))
             ''Outer'' = Some ex_outer"
    by code_simp
  have c: "''Inner'' \<in> set (get_children ex_outer)"
    by code_simp
  have C: "map_of (elements (resolve_relationships (parse_files [(Some ex_root, ''wxs'')])))
             ''Inner'' = Some ex_inner"
    by code_simp
  from parents_inverse_of_children[OF refl P c C] P c C show ?thesis by simp
qed

section \<open>Merging: descriptions and attributes\<close>

lemma fold_merge_attr_keeps:
  "map_of ys n = Some e \<Longrightarrow> truthy (attr_description e) \<Longrightarrow>
   map_of (fold merge_attr xs ys) n = Some e"
proof (induction xs arbitrary: ys)
  case Nil
  then show ?case by simp
next
  case (Cons x xs)
  have "map_of (merge_attr x ys) n = Some e"
    using Cons.prems by (auto simp: merge_attr_def update_conv' split: option.splits)
  from Cons.IH[OF this Cons.prems(2)] show ?case by simp
qed

lemma attributes_merge_element:
  "get_attributes (merge_element existing extracted) =
     fold merge_attr (get_attributes extracted) (get_attributes existing)"
  by (simp add: merge_element_def Let_def get_attributes_def)

text \<open>
  Claim C2. Merging an extraction into an existing descriptor leaves a non-empty
  description of the element as it is, and leaves every attribute of the existing
  descriptor whose description is not empty with that description.
\<close>

theorem merge_keeps_descriptions:
  "(truthy (el_description existing) \<longrightarrow>
      el_description (merge_element existing extracted) = el_description existing) \<and>
   (\<forall>n e. map_of (get_attributes existing) n = Some e \<and> truthy (attr_description e) \<longrightarrow>
      (\<exists>e'. map_of (get_attributes (merge_element existing extracted)) n = Some e' \<and>
            attr_description e' = attr_description e))"
proof (intro conjI impI allI)
  assume "truthy (el_description existing)"
  then show "el_description (merge_element existing extracted) = el_description existing"
    by (simp add: merge_element_def Let_def)
next
  fix n e
  assume "map_of (get_attributes existing) n = Some e \<and> truthy (attr_description e)"
  then have "map_of (get_attributes (merge_element existing extracted)) n = Some e"
    by (simp add: attributes_merge_element fold_merge_attr_keeps)
  then show "\<exists>e'. map_of (get_attributes (merge_element existing extracted)) n = Some e' \<and>
                  attr_description e' = attr_description e"
    by simp
qed

theorem merge_keeps_descriptions_witness:
  "truthy (el_description ex_existing) \<and>
   el_description (merge_element ex_existing ex_extracted) = Some ''A hand-written description.'' \<and>
   map_of (get_attributes ex_existing) ''Id'' = Some ex_id \<and>
   truthy (attr_description ex_id) \<and>
   (\<exists>e'. map_of (get_attributes (merge_element ex_existing ex_extracted)) ''Id'' = Some e' \<and>
         attr_description e' = Some ''Curated text.'')"
proof -
  have h1: "truthy (el_description ex_existing)" by code_simp
  have h2: "map_of (get_attributes ex_existing) ''Id'' = Some ex_id" by code_simp
  have h3: "truthy (attr_description ex_id)" by code_simp
  have d: "el_description ex_existing = Some ''A hand-written description.''"
    by (simp add: ex_existing_def)
  have a: "attr_description ex_id = Some ''Curated text.''"
    by (simp add: ex_id_def)
  from merge_keeps_descriptions[of ex_existing ex_extracted] h1 h2 h3 d a
  show ?thesis by metis
qed

text \<open>
  What the loop does with an attribute that both descriptors have: the entry keeps its
  type, requiredness, default and values, whatever the extraction says; only an empty
  description is replaced.
\<close>

lemma merge_attr_keeps_structure:
  "map_of ys n = Some e \<Longrightarrow>
   \<exists>e'. map_of (merge_attr p ys) n = Some e' \<and> attr_type e' = attr_type e \<and>
        attr_required e' = attr_required e \<and> attr_default e' = attr_default e \<and>
        attr_values e' = attr_values e"
  by (auto simp: merge_attr_def update_conv' split: option.splits)

lemma fold_merge_attr_keeps_structure:
  "map_of ys n = Some e \<Longrightarrow>
   \<exists>e'. map_of (fold merge_attr xs ys) n = Some e' \<and> attr_type e' = attr_type e \<and>
        attr_required e' = attr_required e \<and> attr_default e' = attr_default e \<and>
        attr_values e' = attr_values e"
proof (induction xs arbitrary: ys e)
  case Nil
  then show ?case by simp
next
  case (Cons p xs)
  from merge_attr_keeps_structure[OF Cons.prems, of p] obtain e1 where
    e1: "map_of (merge_attr p ys) n = Some e1" "attr_type e1 = attr_type e"
      "attr_required e1 = attr_required e" "attr_default e1 = attr_default e"
      "attr_values e1 = attr_values e"
    by blast
  from Cons.IH[OF e1(1)] e1 show ?case by simp
qed

lemma fold_merge_attr_other:
  "n \<notin> fst ` set xs \<Longrightarrow> map_of (fold merge_attr xs ys) n = map_of ys n"
proof (induction xs arbitrary: ys)
  case Nil
  show ?case by simp
next
  case (Cons x xs)
  then have "fst x \<noteq> n" and "n \<notin> fst ` set xs" by auto
  then show ?case using Cons.IH[of "merge_attr x ys"]
    by (simp add: merge_attr_def update_conv' split: option.splits)
qed

lemma fold_merge_attr_fills:
  "distinct (map fst xs) \<Longrightarrow> map_of ys n = Some e \<Longrightarrow> \<not> truthy (attr_description e) \<Longrightarrow>
   map_of xs n = Some x \<Longrightarrow>
   map_of (fold merge_attr xs ys) n =
     Some (e\<lparr>attr_description := Some (case attr_description x of None \<Rightarrow> [] | Some s \<Rightarrow> s)\<rparr>)"
proof (induction xs arbitrary: ys)
  case Nil
  then show ?case by simp
next
  case (Cons p xs)
  show ?case
  proof (cases "fst p = n")
    case True
    with Cons.prems have x: "snd p = x" and notin: "n \<notin> fst ` set xs" by auto
    have "map_of (merge_attr p ys) n =
        Some (e\<lparr>attr_description := Some (case attr_description x of None \<Rightarrow> [] | Some s \<Rightarrow> s)\<rparr>)"
      using Cons.prems(2,3) True x by (simp add: merge_attr_def update_conv')
    with fold_merge_attr_other[OF notin, of "merge_attr p ys"] show ?thesis by simp
  next
    case False
    with Cons.prems have "map_of (merge_attr p ys) n = Some e" and "map_of xs n = Some x"
      and "distinct (map fst xs)"
      by (auto simp: merge_attr_def update_conv' split: option.splits)
    from Cons.IH[OF this(3) this(1) Cons.prems(3) this(2)] show ?thesis by simp
  qed
qed

lemma keys_merge_attr: "fst ` set (merge_attr p ys) = insert (fst p) (fst ` set ys)"
proof -
  have "dom (map_of (merge_attr p ys)) = insert (fst p) (dom (map_of ys))"
    by (auto simp: merge_attr_def update_conv' split: option.splits if_splits)
  then show ?thesis by (simp add: dom_map_of_conv_image_fst)
qed

lemma keys_fold_merge_attr: "fst ` set (fold merge_attr xs ys) = fst ` set ys \<union> fst ` set xs"
  by (induction xs arbitrary: ys) (auto simp: keys_merge_attr)

text \<open>
  Claim C5, at a descriptor whose attribute \<open>Id\<close> is curated as an optional string and
  extracted as a required integer with default 1. The merged attribute is the curated
  one, unchanged: the description is kept, and so are the type, the requiredness and the
  missing default, which the claim says come from the extraction.
\<close>

theorem merge_ignores_extracted_attribute_facts:
  "map_of (get_attributes ex_existing) ''Id'' =
     Some \<lparr>attr_type = Some ''string'', attr_required = Some False,
           attr_description = Some ''Curated text.'', attr_default = None,
           attr_values = None\<rparr> \<and>
   map_of (get_attributes ex_extracted) ''Id'' =
     Some \<lparr>attr_type = Some ''integer'', attr_required = Some True,
           attr_description = Some ''The Id attribute.'', attr_default = Some ''1'',
           attr_values = None\<rparr> \<and>
   map_of (get_attributes (merge_element ex_existing ex_extracted)) ''Id'' =
     Some \<lparr>attr_type = Some ''string'', attr_required = Some False,
           attr_description = Some ''Curated text.'', attr_default = None,
           attr_values = None\<rparr>"
  by code_simp

section \<open>Merging: children and parents\<close>

lemma fold_insert_set: "fold insert new A = A \<union> set new"
  by (induction new arbitrary: A) auto

lemma merge_names_eq: "merge_names old new = sorted_list_of_set (set old \<union> set new)"
  by (simp add: merge_names_def fold_insert_set)

lemma length_merge_names: "length (merge_names old new) = card (set old \<union> set new)"
  by (simp add: merge_names_eq)

lemma card_le_merge_names: "card (set old) \<le> length (merge_names old new)"
  by (simp add: length_merge_names card_mono)

lemma children_merge_element:
  "el_children (merge_element existing extracted) =
     Some (merge_names (get_children existing) (get_children extracted))"
  by (simp add: merge_element_def Let_def)

lemma parents_merge_element:
  "el_parents (merge_element existing extracted) =
     Some (merge_names (get_parents existing) (get_parents extracted))"
  by (simp add: merge_element_def Let_def)

text \<open>
  Claim C6 as stated fails: a list with a repeated name is longer than the sorted set
  made of it. Here the existing children are \<open>A, A\<close> and the merged children are \<open>A\<close>.
\<close>

theorem merge_shrinks_repeated_children:
  "get_children ex_dup_existing = [''A'', ''A''] \<and>
   get_children (merge_element ex_dup_existing ex_dup_extracted) = [''A''] \<and>
   length (get_children (merge_element ex_dup_existing ex_dup_extracted))
     < length (get_children ex_dup_existing)"
  by code_simp

text \<open>
  Claim C6, amended. The merged children are the sorted list of the set union of the
  existing and the extracted children, and likewise for parents. The merged list has at
  least as many entries as there are different names among the existing ones; so it is
  at least as long as the existing list whenever that list has no repeated name.
\<close>

theorem merge_unions_children_and_parents:
  "el_children (merge_element existing extracted) =
     Some (sorted_list_of_set (set (get_children existing) \<union> set (get_children extracted))) \<and>
   el_parents (merge_element existing extracted) =
     Some (sorted_list_of_set (set (get_parents existing) \<union> set (get_parents extracted))) \<and>
   card (set (get_children existing)) \<le> length (get_children (merge_element existing extracted)) \<and>
   card (set (get_parents existing)) \<le> length (get_parents (merge_element existing extracted)) \<and>
   (distinct (get_children existing) \<longrightarrow>
      length (get_children existing) \<le> length (get_children (merge_element existing extracted))) \<and>
   (distinct (get_parents existing) \<longrightarrow>
      length (get_parents existing) \<le> length (get_parents (merge_element existing extracted)))"
proof -
  have c: "get_children (merge_element existing extracted) =
      merge_names (get_children existing) (get_children extracted)"
    by (simp add: get_children_def[of "merge_element existing extracted"] children_merge_element)
  have p: "get_parents (merge_element existing extracted) =
      merge_names (get_parents existing) (get_parents extracted)"
    by (simp add: get_parents_def[of "merge_element existing extracted"] parents_merge_element)
  have dc: "length (get_children existing) \<le> length (get_children (merge_element existing extracted))"
    if "distinct (get_children existing)"
    using card_le_merge_names[of "get_children existing" "get_children extracted"]
      distinct_card[OF that] c by simp
  have dp: "length (get_parents existing) \<le> length (get_parents (merge_element existing extracted))"
    if "distinct (get_parents existing)"
    using card_le_merge_names[of "get_parents existing" "get_parents extracted"]
      distinct_card[OF that] p by simp
  show ?thesis
    using dc dp
    by (simp add: children_merge_element parents_merge_element merge_names_eq[symmetric] c p
        card_le_merge_names)
qed

theorem merge_unions_children_and_parents_witness:
  "distinct (get_children ex_existing) \<and> distinct (get_parents ex_existing) \<and>
   el_children (merge_element ex_existing ex_extracted) = Some [''A'', ''B'', ''C''] \<and>
   el_parents (merge_element ex_existing ex_extracted) = Some [''Package'', ''Wix''] \<and>
   length (get_children ex_existing) \<le> length (get_children (merge_element ex_existing ex_extracted)) \<and>
   length (get_parents ex_existing) \<le> length (get_parents (merge_element ex_existing ex_extracted))"
proof -
  have h1: "distinct (get_children ex_existing)" by code_simp
  have h2: "distinct (get_parents ex_existing)" by code_simp
  have v1: "el_children (merge_element ex_existing ex_extracted) = Some [''A'', ''B'', ''C'']"
    by code_simp
  have v2: "el_parents (merge_element ex_existing ex_extracted) = Some [''Package'', ''Wix'']"
    by code_simp
  from merge_unions_children_and_parents[of ex_existing ex_extracted] h1 h2 v1 v2
  show ?thesis by simp
qed

section \<open>Merging on the store: what the caller's object shows afterwards\<close>

lemma map_update_alist:
  "map (\<lambda>(n, r). (n, g r)) (AList.update k v al) =
   AList.update k (g v) (map (\<lambda>(n, r). (n, g r)) al)"
  by (induction al) auto

lemma map_of_mapped: "map_of (map (\<lambda>(n, r). (n, g r)) al) n = map_option g (map_of al n)"
  by (induction al) auto

lemma update_new_key: "k \<notin> fst ` set al \<Longrightarrow> AList.update k v al = al @ [(k, v)]"
  by (induction al) auto

text \<open>
  Writing one object of a dictionary whose objects are all different changes the entry
  of one key only.
\<close>

lemma map_fun_upd_alist:
  "distinct (map snd al) \<Longrightarrow> map_of al n = Some r \<Longrightarrow>
   map (\<lambda>(n', r'). (n', (f(r := X)) r')) al = AList.update n X (map (\<lambda>(n', r'). (n', f r')) al)"
proof (induction al)
  case Nil
  then show ?case by simp
next
  case (Cons x al)
  obtain k r0 where x: "x = (k, r0)" by (cases x)
  show ?case
  proof (cases "k = n")
    case True
    with Cons.prems x have r0: "r0 = r" by simp
    with Cons.prems x have "r \<notin> snd ` set al" by auto
    then have "map (\<lambda>(n', r'). (n', (f(r := X)) r')) al = map (\<lambda>(n', r'). (n', f r')) al"
      by (auto simp: rev_image_eqI)
    with True x r0 show ?thesis by simp
  next
    case False
    with Cons.prems x have m: "map_of al n = Some r" by simp
    then have "r \<in> snd ` set al" by (metis map_of_SomeD image_eqI snd_conv)
    with Cons.prems x have "r0 \<noteq> r" by auto
    with Cons.IH[OF _ m] Cons.prems False x show ?thesis by simp
  qed
qed

lemma merge_attr_st_read:
  assumes "distinct (map snd (attr_dicts h a))"
  shows "read_dict (merge_attr_st a p h) a =
         merge_attr (fst p, attr_objs h (snd p)) (read_dict h a)"
proof (cases "map_of (attr_dicts h a) (fst p)")
  case None
  then show ?thesis
    by (simp add: merge_attr_st_def merge_attr_def read_dict_def map_of_mapped map_update_alist)
next
  case (Some r)
  show ?thesis
  proof (cases "truthy (attr_description (attr_objs h r))")
    case True
    with Some show ?thesis
      by (simp add: merge_attr_st_def merge_attr_def read_dict_def map_of_mapped)
  next
    case False
    define X where "X = (attr_objs h r)\<lparr>attr_description :=
        Some (case attr_description (attr_objs h (snd p)) of None \<Rightarrow> [] | Some s \<Rightarrow> s)\<rparr>"
    have l: "merge_attr_st a p h = h\<lparr>attr_objs := (attr_objs h)(r := X)\<rparr>"
      using Some False by (simp add: merge_attr_st_def X_def)
    have r: "merge_attr (fst p, attr_objs h (snd p)) (read_dict h a) =
             AList.update (fst p) X (read_dict h a)"
      using Some False by (simp add: merge_attr_def read_dict_def map_of_mapped X_def)
    have "read_dict (h\<lparr>attr_objs := (attr_objs h)(r := X)\<rparr>) a =
          AList.update (fst p) X (read_dict h a)"
      unfolding read_dict_def using map_fun_upd_alist[OF assms Some, of "attr_objs h" X] by simp
    with l r show ?thesis by simp
  qed
qed

lemma merge_attr_st_dict:
  "attr_dicts (merge_attr_st a p h) a = attr_dicts h a \<or>
   attr_dicts (merge_attr_st a p h) a = attr_dicts h a @ [p]"
proof (cases "map_of (attr_dicts h a) (fst p)")
  case None
  then have "fst p \<notin> fst ` set (attr_dicts h a)" by (simp add: map_of_eq_None_iff)
  then have "AList.update (fst p) (snd p) (attr_dicts h a) = attr_dicts h a @ [p]"
    by (simp add: update_new_key)
  then show ?thesis using None by (simp add: merge_attr_st_def)
next
  case (Some r)
  then show ?thesis by (simp add: merge_attr_st_def)
qed

lemma merge_attr_st_objs:
  "r \<notin> snd ` set (attr_dicts h a) \<Longrightarrow> attr_objs (merge_attr_st a p h) r = attr_objs h r"
  by (auto simp: merge_attr_st_def split: option.splits dest!: map_of_SomeD intro: rev_image_eqI)

text \<open>
  The loop on the store and the loop on values agree as long as no attribute object is
  reachable twice: not under two names of the existing dictionary, and not from both
  dictionaries.
\<close>

lemma fold_merge_attr_st_read:
  "distinct (map snd (attr_dicts h a) @ map snd items) \<Longrightarrow>
   read_dict (fold (merge_attr_st a) items h) a =
     fold merge_attr (map (\<lambda>(n, r). (n, attr_objs h r)) items) (read_dict h a)"
proof (induction items arbitrary: h)
  case Nil
  show ?case by simp
next
  case (Cons p items)
  let ?h = "merge_attr_st a p h"
  from Cons.prems have d0: "distinct (map snd (attr_dicts h a))" by simp
  have d1: "distinct (map snd (attr_dicts ?h a) @ map snd items)"
  proof -
    from Cons.prems have "distinct (map snd (attr_dicts h a) @ map snd items)"
      and "distinct ((map snd (attr_dicts h a) @ [snd p]) @ map snd items)"
      by simp_all
    with merge_attr_st_dict[of a p h] show ?thesis by (elim disjE) simp_all
  qed
  have same: "attr_objs ?h r = attr_objs h r" if "(n, r) \<in> set items" for n r
  proof -
    from that have "r \<in> snd ` set items" by (rule rev_image_eqI) simp
    then have "r \<in> set (map snd (p # items))" by simp
    with Cons.prems have "r \<notin> set (map snd (attr_dicts h a))"
      unfolding distinct_append by blast
    then have "r \<notin> snd ` set (attr_dicts h a)" by simp
    then show ?thesis by (rule merge_attr_st_objs)
  qed
  then have m: "map (\<lambda>(n, r). (n, attr_objs ?h r)) items =
                map (\<lambda>(n, r). (n, attr_objs h r)) items"
    by auto
  have "read_dict (fold (merge_attr_st a) (p # items) h) a =
        read_dict (fold (merge_attr_st a) items ?h) a"
    by simp
  also have "\<dots> = fold merge_attr (map (\<lambda>(n, r). (n, attr_objs ?h r)) items) (read_dict ?h a)"
    by (rule Cons.IH[OF d1])
  also have "\<dots> = fold merge_attr (map (\<lambda>(n, r). (n, attr_objs h r)) items)
                      (merge_attr (fst p, attr_objs h (snd p)) (read_dict h a))"
    by (simp only: m merge_attr_st_read[OF d0])
  also have "\<dots> = fold merge_attr (map (\<lambda>(n, r). (n, attr_objs h r)) (p # items))
                      (read_dict h a)"
    by (simp add: case_prod_unfold)
  finally show ?case .
qed

lemma fold_merge_attr_st_entry:
  "map_of (attr_dicts h a) n = Some r \<Longrightarrow>
   map_of (attr_dicts (fold (merge_attr_st a) items h) a) n = Some r"
proof (induction items arbitrary: h)
  case Nil
  then show ?case by simp
next
  case (Cons p items)
  have "map_of (attr_dicts (merge_attr_st a p h) a) n = Some r"
    using merge_attr_st_dict[of a p h] Cons.prems by (elim disjE) simp_all
  from Cons.IH[OF this] show ?case by simp
qed

lemma read_items:
  "map (\<lambda>(n, r). (n, attr_objs h r)) (attr_items h d) = get_attributes (deref h d)"
  by (simp add: attr_items_def get_attributes_def deref_def read_dict_def split: option.splits)

lemma map_fst_mapped: "map fst (map (\<lambda>(n, r). (n, g r)) al) = map fst al"
  by (induction al) auto

text \<open>
  Claim C10. Let the existing descriptor hold an \<open>attributes\<close> dictionary (at address \<open>a\<close>),
  let no attribute object be reachable twice (not under two names of that dictionary and
  not from both dictionaries), and let the call return \<open>merged\<close> in the store \<open>h'\<close>. Then
  \<open>merged\<close> and \<open>existing\<close> hold the same \<open>attributes\<close> object; that object, which the
  caller still reaches through \<open>existing\<close>, now reads as the merged attributes; it has
  every extracted attribute name as a key; and every attribute object of the existing
  descriptor that had an empty description and is also extracted now carries the
  extracted description. The call has written to the caller's objects.
\<close>

theorem merge_element_mutates_existing:
  assumes a: "el_attributes existing = Some a"
    and sep: "distinct (map snd (attr_dicts h a) @ map snd (attr_items h extracted))"
    and keys: "distinct (map fst (attr_items h extracted))"
    and res: "merge_element_st h existing extracted = (h', merged)"
  shows "el_attributes merged = el_attributes existing \<and>
         read_dict h' a = get_attributes (merge_element (deref h existing) (deref h extracted)) \<and>
         deref h' merged = merge_element (deref h existing) (deref h extracted) \<and>
         fst ` set (attr_items h extracted) \<subseteq> fst ` set (attr_dicts h' a) \<and>
         (\<forall>n r x. map_of (attr_dicts h a) n = Some r \<and>
                  \<not> truthy (attr_description (attr_objs h r)) \<and>
                  map_of (attr_items h extracted) n = Some x \<longrightarrow>
            attr_description (attr_objs h' r) =
              Some (case attr_description (attr_objs h x) of None \<Rightarrow> [] | Some s \<Rightarrow> s))"
proof -
  have h': "h' = fold (merge_attr_st a) (attr_items h extracted) h"
    using res a by (auto simp: merge_element_st_def Let_def)
  have m: "el_attributes merged = Some a"
    using res a by (auto simp: merge_element_st_def Let_def)
  have ex: "read_dict h a = get_attributes (deref h existing)"
    using a by (simp add: get_attributes_def deref_def)
  have rd: "read_dict h' a = get_attributes (merge_element (deref h existing) (deref h extracted))"
    using fold_merge_attr_st_read[OF sep] read_items[of h extracted] ex
    by (simp add: h' attributes_merge_element)
  have dm: "deref h' merged = merge_element (deref h existing) (deref h extracted)"
    using res a rd
    by (auto simp: merge_element_st_def merge_element_def Let_def deref_def get_attributes_def
        get_children_def get_parents_def)
  have k1: "fst ` set (read_dict h' a) =
      fst ` set (read_dict h a) \<union> fst ` set (get_attributes (deref h extracted))"
    by (simp add: rd attributes_merge_element keys_fold_merge_attr ex)
  have k2: "fst ` set (read_dict h' a) = fst ` set (attr_dicts h' a)"
    by (force simp: read_dict_def)
  have k3: "fst ` set (attr_items h extracted) = fst ` set (get_attributes (deref h extracted))"
    unfolding read_items[symmetric] by force
  have "fst ` set (get_attributes (deref h extracted)) \<subseteq> fst ` set (read_dict h' a)"
    unfolding k1 by (rule Un_upper2)
  then have gains: "fst ` set (attr_items h extracted) \<subseteq> fst ` set (attr_dicts h' a)"
    unfolding k3 k2 .
  have fills: "attr_description (attr_objs h' r) =
      Some (case attr_description (attr_objs h x) of None \<Rightarrow> [] | Some s \<Rightarrow> s)"
    if r: "map_of (attr_dicts h a) n = Some r"
      and e: "\<not> truthy (attr_description (attr_objs h r))"
      and x: "map_of (attr_items h extracted) n = Some x" for n r x
  proof -
    let ?xs = "map (\<lambda>(n, r). (n, attr_objs h r)) (attr_items h extracted)"
    have d: "distinct (map fst ?xs)" using keys by (simp only: map_fst_mapped)
    have y: "map_of (read_dict h a) n = Some (attr_objs h r)"
      using r by (simp add: read_dict_def map_of_mapped)
    have xv: "map_of ?xs n = Some (attr_objs h x)"
      using x by (simp add: map_of_mapped)
    from fold_merge_attr_fills[OF d y e xv]
    have "map_of (read_dict h' a) n =
        Some ((attr_objs h r)\<lparr>attr_description :=
           Some (case attr_description (attr_objs h x) of None \<Rightarrow> [] | Some s \<Rightarrow> s)\<rparr>)"
      using fold_merge_attr_st_read[OF sep] by (simp add: h')
    moreover have "map_of (read_dict h' a) n = Some (attr_objs h' r)"
      using fold_merge_attr_st_entry[OF r, of "attr_items h extracted"]
      by (simp add: read_dict_def map_of_mapped h')
    ultimately have "attr_objs h' r = (attr_objs h r)\<lparr>attr_description :=
           Some (case attr_description (attr_objs h x) of None \<Rightarrow> [] | Some s \<Rightarrow> s)\<rparr>"
      by simp
    then show ?thesis by simp
  qed
  show ?thesis
  proof (intro conjI allI impI)
    show "el_attributes merged = el_attributes existing" using m a by simp
    show "read_dict h' a = get_attributes (merge_element (deref h existing) (deref h extracted))"
      by (rule rd)
    show "deref h' merged = merge_element (deref h existing) (deref h extracted)"
      by (rule dm)
    show "fst ` set (attr_items h extracted) \<subseteq> fst ` set (attr_dicts h' a)"
      by (rule gains)
  next
    fix n r x
    assume "map_of (attr_dicts h a) n = Some r \<and>
            \<not> truthy (attr_description (attr_objs h r)) \<and>
            map_of (attr_items h extracted) n = Some x"
    then show "attr_description (attr_objs h' r) =
        Some (case attr_description (attr_objs h x) of None \<Rightarrow> [] | Some s \<Rightarrow> s)"
      using fills[of n r x] by simp
  qed
qed




theorem merge_element_mutates_existing_witness:
  "el_attributes ex_existing_ref = Some 0 \<and>
   distinct (map snd (attr_dicts ex_store 0) @ map snd (attr_items ex_store ex_extracted_ref)) \<and>
   distinct (map fst (attr_items ex_store ex_extracted_ref)) \<and>
   el_attributes (snd (merge_element_st ex_store ex_existing_ref ex_extracted_ref)) = Some 0 \<and>
   map fst (read_dict ex_store 0) = [''Id''] \<and>
   read_dict (fst (merge_element_st ex_store ex_existing_ref ex_extracted_ref)) 0 =
     get_attributes (merge_element (deref ex_store ex_existing_ref) (deref ex_store ex_extracted_ref)) \<and>
   map fst (read_dict (fst (merge_element_st ex_store ex_existing_ref ex_extracted_ref)) 0)
     = [''Id'', ''Name''] \<and>
   attr_description (attr_objs ex_store 10) = Some [] \<and>
   attr_description
     (attr_objs (fst (merge_element_st ex_store ex_existing_ref ex_extracted_ref)) 10)
     = Some ''The Id attribute.''"
proof -
  let ?res = "merge_element_st ex_store ex_existing_ref ex_extracted_ref"
  have a: "el_attributes ex_existing_ref = Some 0" by code_simp
  have sep: "distinct (map snd (attr_dicts ex_store 0) @
                       map snd (attr_items ex_store ex_extracted_ref))"
    by code_simp
  have keys: "distinct (map fst (attr_items ex_store ex_extracted_ref))" by code_simp
  have res: "?res = (fst ?res, snd ?res)" by (rule prod.collapse[symmetric])
  note c = merge_element_mutates_existing[OF a sep keys res]
  from c have "el_attributes (snd ?res) = el_attributes ex_existing_ref" by (rule conjunct1)
  with a have m: "el_attributes (snd ?res) = Some 0" by (simp only:)
  from c have rd: "read_dict (fst ?res) 0 =
        get_attributes (merge_element (deref ex_store ex_existing_ref)
                          (deref ex_store ex_extracted_ref))"
    by (elim conjE)
  have k0: "map fst (read_dict ex_store 0) = [''Id'']" by code_simp
  have k: "map fst (read_dict (fst ?res) 0) = [''Id'', ''Name'']" by code_simp
  have e0: "attr_description (attr_objs ex_store 10) = Some []" by code_simp
  have f: "attr_description (attr_objs (fst ?res) 10) = Some ''The Id attribute.''"
    by code_simp
  show ?thesis
    by (intro conjI) (fact a sep keys m k0 rd k e0 f)+
qed

section \<open>Group references and repeated children\<close>

text \<open>
  Claim C7, at the schema \<open>ex_group_root\<close>: the content model of \<open>Outer\<close> (its named type)
  holds a reference to the group \<open>G\<close>, \<open>G\<close> holds \<open>Inner\<close> and is stored under its name, and
  yet \<open>Outer\<close> gets no children. \<^verbatim>\<open>parse_file\<close> parses the named complex types before it
  stores any group, so the lookup in \<^verbatim>\<open>self.groups\<close> finds nothing. The same content model
  written inline (\<open>ex_group_inline_root\<close>) is parsed after the groups and gets \<open>Inner\<close>.
\<close>

theorem group_reference_in_named_type_not_expanded:
  "map_of (groups (parse_files [(Some ex_group_root, ''wxs'')])) ''G'' = Some [''Inner''] \<and>
   map_of (types (parse_files [(Some ex_group_root, ''wxs'')])) ''OuterType''
     = Some (ComplexType [] []) \<and>
   map_option get_children
     (map_of (elements (resolve_relationships (parse_files [(Some ex_group_root, ''wxs'')])))
        ''Outer'') = Some [] \<and>
   map_option get_children
     (map_of (elements (resolve_relationships (parse_files [(Some ex_group_inline_root, ''wxs'')])))
        ''Outer'') = Some [''Inner'']"
  by code_simp

text \<open>
  For an inline type the expansion does happen: when the element has no \<open>type\<close> attribute,
  its first \<open>complexType\<close> child holds a group reference, and the group is in the table,
  every name of the group is among the children.
\<close>

lemma inline_group_reference_expanded:
  assumes nm: "truthy (get e ''name'')"
    and ty: "get e ''type'' = None"
    and ct: "find_first (findall_child (XS @ ''complexType'') e) = Some ct"
    and g: "g \<in> set (findall_desc (XS @ ''group'') ct)"
    and ref: "get g ''ref'' = Some G" "G \<noteq> []"
    and grp: "map_of (groups st) G = Some cs"
    and inner: "Inner \<in> set cs"
  shows "\<exists>d. parse_element st e ns = Some d \<and> Inner \<in> set (get_children d)"
proof -
  have "Inner \<in> set (ti_children (parse_complex_type st ct))"
    using g ref grp inner
    by (auto simp: parse_complex_type_def Let_def truthy_def intro!: bexI[of _ g])
  then show ?thesis using nm ty ct
    by (simp add: parse_element_def Let_def get_children_def)
qed

text \<open>
  For a named type the failure is general. While the named complex types of the first
  file are parsed, the group table is still empty, so every type stored in that loop
  has the children of its direct references only.
\<close>

lemma groups_store_complex_type: "groups (store_complex_type p st) = groups st"
  by (simp add: store_complex_type_def)

lemma named_types_see_no_groups:
  assumes "groups st = []"
    and "map_of (types (fold store_complex_type xs st)) n = Some ti"
  shows "map_of (types st) n = Some ti \<or>
         (\<exists>te. (n, te) \<in> set xs \<and>
            ti_children ti =
              concat (map (\<lambda>container. refs_of (findall_desc_child container (XS @ ''element'') te))
                       [XS @ ''sequence'', XS @ ''choice'', XS @ ''all'']))"
  using assms
proof (induction xs arbitrary: st)
  case Nil
  then show ?case by simp
next
  case (Cons p xs)
  let ?st = "store_complex_type p st"
  have g: "groups ?st = []" using Cons.prems(1) by (simp add: groups_store_complex_type)
  from Cons.IH[OF g] Cons.prems(2)
  consider "map_of (types ?st) n = Some ti"
    | te where "(n, te) \<in> set xs"
      "ti_children ti =
         concat (map (\<lambda>container. refs_of (findall_desc_child container (XS @ ''element'') te))
                  [XS @ ''sequence'', XS @ ''choice'', XS @ ''all''])"
    by auto
  then show ?case
  proof cases
    case 1
    show ?thesis
    proof (cases "fst p = n")
      case True
      with 1 have "ti = parse_complex_type st (snd p)"
        by (simp add: store_complex_type_def update_conv')
      then have "ti_children ti =
         concat (map (\<lambda>container. refs_of (findall_desc_child container (XS @ ''element'') (snd p)))
                  [XS @ ''sequence'', XS @ ''choice'', XS @ ''all''])"
        using Cons.prems(1) by (auto simp: parse_complex_type_def Let_def)
      moreover have "(n, snd p) \<in> set (p # xs)" using True by (cases p) simp
      ultimately show ?thesis by blast
    next
      case False
      with 1 show ?thesis by (simp add: store_complex_type_def update_conv')
    qed
  next
    case 2
    then show ?thesis by auto
  qed
qed

text \<open>
  Claim C8, at the schema \<open>ex_dup_root\<close>: update-from-xsd.py appends every reference it
  meets, so \<open>Dup\<close> gets \<open>A\<close> three times (two direct references and one through the group).
  extract-xsd.py, on the same schema, lists \<open>A\<close> once.
\<close>

theorem children_not_deduplicated:
  "map_option get_children
     (map_of (elements (resolve_relationships (parse_files [(Some ex_dup_root, ''wxs'')])))
        ''Dup'') = Some [''A'', ''A'', ''A''] \<and>
   map (\<lambda>d. (el_name d, get_children d))
     (extract_elements ex_dup_root (extract_simple_types ex_dup_root))
     = [(Some ''Dup'', [''A'']), (Some ''A'', [])]"
  by code_simp

text \<open>The child loop of extract-xsd.py never repeats a name.\<close>

lemma distinct_add_child: "distinct cs \<Longrightarrow> distinct (add_child c cs)"
  by (simp add: add_child_def Let_def)

lemma distinct_fold_add_child: "distinct cs \<Longrightarrow> distinct (fold add_child es cs)"
  by (induction es arbitrary: cs) (simp_all add: distinct_add_child)

lemma children_parse_element_ex_distinct:
  "parse_element_ex elem simple_types all_elements = Some d \<Longrightarrow> distinct (get_children d)"
  by (auto simp: parse_element_ex_def Let_def get_children_def distinct_fold_add_child
      split: if_splits option.splits)

section \<open>Unknown types, groups and children\<close>

lemma keys_update: "fst ` set (AList.update k v al) = insert k (fst ` set al)"
  by (induction al) auto

lemma types_fold_complex:
  "fst ` set (types (fold store_complex_type xs st)) = fst ` set (types st) \<union> fst ` set xs"
  by (induction xs arbitrary: st) (auto simp: store_complex_type_def keys_update)

lemma types_fold_simple:
  "fst ` set (types (fold store_simple_type xs st)) = fst ` set (types st) \<union> fst ` set xs"
  by (induction xs arbitrary: st) (auto simp: store_simple_type_def keys_update)

lemma types_fold_group: "types (fold store_group xs st) = types st"
  by (induction xs arbitrary: st) (simp_all add: store_group_def)

lemma types_store_element: "types (store_element ns e st) = types st"
  by (simp add: store_element_def split: option.splits)

lemma types_fold_element: "types (fold (store_element ns) es st) = types st"
  by (induction es arbitrary: st) (simp_all add: types_store_element)

text \<open>
  The type names the parser knows after a file are those it knew before and the names of
  the file's complex and simple types; the elements of the file are parsed against
  exactly this table.
\<close>

lemma types_parse_file:
  "fst ` set (types (parse_file st (Some root) ns)) =
     fst ` set (types st) \<union> fst ` set (findall_desc_named (XS @ ''complexType'') root)
       \<union> fst ` set (findall_desc_named (XS @ ''simpleType'') root)"
  by (simp add: parse_file_def Let_def types_fold_element types_fold_group types_fold_simple
      types_fold_complex)

text \<open>
  The parser keeps its tables from one file to the next, so the type names it knows
  after a run are those that the well-formed documents of the run define.
\<close>

lemma types_fold_parse_file:
  "fst ` set (types (fold (\<lambda>(doc, ns) st. parse_file st doc ns) docs st)) =
     fst ` set (types st) \<union> defined_types docs"
proof (induction docs arbitrary: st)
  case Nil
  show ?case by (simp add: defined_types_def)
next
  case (Cons p docs)
  obtain doc ns where p: "p = (doc, ns)" by (cases p)
  have step: "fst ` set (types (parse_file st doc ns)) =
      fst ` set (types st) \<union> (case doc of None \<Rightarrow> {} | Some root \<Rightarrow> type_names root)"
  proof (cases doc)
    case None
    then show ?thesis by (simp add: parse_file_def)
  next
    case (Some root)
    then show ?thesis by (simp only: types_parse_file type_names_def option.case Un_assoc)
  qed
  have "defined_types (p # docs) =
      (case doc of None \<Rightarrow> {} | Some root \<Rightarrow> type_names root) \<union> defined_types docs"
    by (simp add: defined_types_def p)
  with Cons.IH[of "parse_file st doc ns"] step show ?case
    by (simp add: p Un_assoc)
qed

lemma types_parse_files: "fst ` set (types (parse_files docs)) = defined_types docs"
  using types_fold_parse_file[of docs init_parser]
  by (simp add: parse_files_def init_parser_def)

lemma parse_files_snoc:
  "parse_files (docs @ [(doc, ns)]) = parse_file (parse_files docs) doc ns"
  by (simp add: parse_files_def)

lemma parse_element_unknown_type:
  assumes "get e ''name'' = Some n" "n \<noteq> []" "get e ''type'' = Some tn"
    and "map_of (types st) tn = None" "findall_child (XS @ ''complexType'') e = []"
  shows "\<exists>d. parse_element st e ns = Some d \<and> el_name d = Some n \<and>
             el_attributes d = Some [] \<and> el_children d = Some []"
  using assms
  by (auto simp: parse_element_def Let_def find_first_def truthy_def split: option.splits)

lemma parse_element_el_name:
  "parse_element st e ns = Some d \<Longrightarrow> el_name d = get e ''name''"
  by (auto simp: parse_element_def Let_def truthy_def split: if_splits option.splits)

lemma store_element_other:
  "map_of (elements (store_element ns e st)) n = map_of (elements st) n"
  if "get e ''name'' \<noteq> Some n"
proof (cases "parse_element st e ns")
  case None
  then show ?thesis by (simp add: store_element_def)
next
  case (Some d)
  from parse_element_el_name[OF Some] parse_element_name[OF Some]
  have "Some (the (el_name d)) = get e ''name''" by auto
  with that have "the (el_name d) \<noteq> n" by auto
  with Some show ?thesis by (simp add: store_element_def update_conv')
qed

lemma fold_store_element_other:
  "\<forall>e\<in>set es. get e ''name'' \<noteq> Some n \<Longrightarrow>
   map_of (elements (fold (store_element ns) es st)) n = map_of (elements st) n"
  by (induction es arbitrary: st) (simp_all add: store_element_other)


lemma grows_entry:
  "grows a b \<Longrightarrow> map_of a k = Some d \<Longrightarrow>
   \<exists>d'. map_of b k = Some d' \<and> el_children d' = el_children d \<and> el_name d' = el_name d \<and>
        el_attributes d' = el_attributes d"
  unfolding grows_def
  by (erule_tac x=k in allE, cases "map_of b k") auto

lemma grows_none: "grows a b \<Longrightarrow> map_of a k = None \<Longrightarrow> map_of b k = None"
  unfolding grows_def
  by (erule_tac x=k in allE, cases "map_of b k") auto

lemma grows_resolve_relationships: "grows (elements st) (elements (resolve_relationships st))"
  using resolve_items_spec[of "elements st" "elements st"]
  by (simp add: resolve_relationships_def)

lemma concat_known_groups:
  "concat (map (\<lambda>g. if P g then (case f g of None \<Rightarrow> [] | Some cs \<Rightarrow> cs) else []) xs) =
   concat (map (\<lambda>g. the (f g)) (filter (\<lambda>g. P g \<and> f g \<noteq> None) xs))"
  by (induction xs) auto

lemma children_parse_complex_type:
  "ti_children (parse_complex_type st te) =
     concat (map (\<lambda>container. refs_of (findall_desc_child container (XS @ ''element'') te))
              [XS @ ''sequence'', XS @ ''choice'', XS @ ''all'']) @
     concat (map (\<lambda>g. the (map_of (groups st) (the (get g ''ref''))))
              (filter (\<lambda>g. truthy (get g ''ref'') \<and>
                            map_of (groups st) (the (get g ''ref'')) \<noteq> None)
                 (findall_desc (XS @ ''group'') te)))"
  unfolding parse_complex_type_def Let_def ti_children.simps
  by (simp only: concat_known_groups)

lemma unknown_type_in_run:
  assumes es: "findall_child (XS @ ''element'') root = es1 @ e # es2"
    and last: "\<forall>e'\<in>set es2. get e' ''name'' \<noteq> Some n"
    and nm: "get e ''name'' = Some n" "n \<noteq> []"
    and ty: "get e ''type'' = Some tn"
    and undef: "tn \<notin> defined_types (docs @ [(Some root, ns)])"
    and noinline: "findall_child (XS @ ''complexType'') e = []"
  shows "\<exists>d. map_of (elements (resolve_relationships (parse_files (docs @ [(Some root, ns)])))) n
               = Some d \<and>
             el_name d = Some n \<and> el_attributes d = Some [] \<and> el_children d = Some []"
proof -
  let ?run = "parse_files (docs @ [(Some root, ns)])"
  define st3 where "st3 =
    fold store_group (findall_desc_named (XS @ ''group'') root)
      (fold store_simple_type (findall_desc_named (XS @ ''simpleType'') root)
        (fold store_complex_type (findall_desc_named (XS @ ''complexType'') root)
          (parse_files docs)))"
  define st4 where "st4 = fold (store_element ns) es1 st3"
  have run: "?run = fold (store_element ns) es2 (store_element ns e st4)"
    by (simp add: parse_files_snoc parse_file_def Let_def es st3_def st4_def)
  have "types ?run = types st4"
    by (simp add: run types_fold_element types_store_element)
  moreover have "tn \<notin> fst ` set (types ?run)"
    unfolding types_parse_files by (rule undef)
  ultimately have "map_of (types st4) tn = None"
    by (simp add: map_of_eq_None_iff)
  from parse_element_unknown_type[OF nm ty this noinline, of ns]
  obtain d where d: "parse_element st4 e ns = Some d" "el_name d = Some n"
      "el_attributes d = Some []" "el_children d = Some []"
    by blast
  then have "map_of (elements (store_element ns e st4)) n = Some d"
    by (simp add: store_element_def update_conv')
  with fold_store_element_other[OF last, of ns "store_element ns e st4"]
  have "map_of (elements ?run) n = Some d" by (simp add: run)
  from grows_entry[OF grows_resolve_relationships this] d(2,3,4)
  show ?thesis by auto
qed

text \<open>
  Claim C9 as stated fails in a run over more than one schema: here the document that
  holds \<open>Lonely\<close> does not define its type \<open>MissingType\<close>, but an earlier document of the
  run does, and \<open>Lonely\<close> gets that type's attribute and child.
\<close>

theorem type_from_earlier_document_counterexample:
  "findall_child (XS @ ''element'') ex_lonely_root = [ex_lonely] \<and>
   get ex_lonely ''type'' = Some ''MissingType'' \<and>
   ''MissingType'' \<notin> type_names ex_lonely_root \<and>
   findall_child (XS @ ''complexType'') ex_lonely = [] \<and>
   map_option (map fst \<circ> get_attributes)
     (map_of (elements (resolve_relationships
        (parse_files [(Some ex_typed_root, ''wxs''), (Some ex_lonely_root, ''util'')]))) ''Lonely'')
     = Some [''X''] \<and>
   map_option get_children
     (map_of (elements (resolve_relationships
        (parse_files [(Some ex_typed_root, ''wxs''), (Some ex_lonely_root, ''util'')]))) ''Lonely'')
     = Some [''Kid'']"
  by code_simp

text \<open>
  Claim C9, amended. Take a run that ends with the document \<open>root\<close>, and a top-level
  element of \<open>root\<close> with a name (the last one of that name), no inline \<open>complexType\<close>
  and a \<open>type\<close> that no document of the run defines, \<open>root\<close> included: the run's descriptor
  for it has no attributes and no children. An attribute whose type is not in the fixed
  mapping and is not an enumeration of the type table gets the type \<open>string\<close>, and so
  does a type name that \<^verbatim>\<open>parse_type_name\<close> of extract-xsd.py does not know. The children
  of a complex type are its direct references and the lists of the groups it refers to
  that are in the group table; a reference to any other group adds nothing. A child
  name that is no descriptor is skipped by the relationship resolver and gets no
  descriptor. All of these functions are total: none has an error result.
\<close>

theorem unknown_references_fall_back:
  "(findall_child (XS @ ''element'') root = es1 @ e # es2 \<and>
    (\<forall>e'\<in>set es2. get e' ''name'' \<noteq> Some n) \<and>
    get e ''name'' = Some n \<and> n \<noteq> [] \<and> get e ''type'' = Some tn \<and>
    tn \<notin> defined_types (docs @ [(Some root, ns)]) \<and>
    findall_child (XS @ ''complexType'') e = [] \<longrightarrow>
      (\<exists>d. map_of (elements (resolve_relationships (parse_files (docs @ [(Some root, ns)])))) n
              = Some d \<and>
           el_name d = Some n \<and> el_attributes d = Some [] \<and> el_children d = Some [])) \<and>
   (truthy (get a ''name'') \<and> map_of type_mapping (get_or a ''type'' ''string'') = None \<and>
    (\<forall>ti. map_of tys (get_or a ''type'' ''string'') = Some ti \<longrightarrow> ti_type ti \<noteq> Some ''enum'') \<longrightarrow>
      (\<exists>d. parse_attribute tys a = Some (the (get a ''name''), d) \<and>
           attr_type d = Some ''string'')) \<and>
   (map_of type_map (after_colon s) = None \<longrightarrow> parse_type_name (Some s) = ''string'') \<and>
   ti_children (parse_complex_type st te) =
     concat (map (\<lambda>container. refs_of (findall_desc_child container (XS @ ''element'') te))
              [XS @ ''sequence'', XS @ ''choice'', XS @ ''all'']) @
     concat (map (\<lambda>g. the (map_of (groups st) (the (get g ''ref''))))
              (filter (\<lambda>g. truthy (get g ''ref'') \<and>
                            map_of (groups st) (the (get g ''ref'')) \<noteq> None)
                 (findall_desc (XS @ ''group'') te))) \<and>
   (map_of (elements st) c = None \<longrightarrow>
      add_parent p c (elements st) = elements st \<and>
      map_of (elements (resolve_relationships st)) c = None)"
proof (intro conjI impI)
  assume h: "findall_child (XS @ ''element'') root = es1 @ e # es2 \<and>
    (\<forall>e'\<in>set es2. get e' ''name'' \<noteq> Some n) \<and>
    get e ''name'' = Some n \<and> n \<noteq> [] \<and> get e ''type'' = Some tn \<and>
    tn \<notin> defined_types (docs @ [(Some root, ns)]) \<and>
    findall_child (XS @ ''complexType'') e = []"
  then have "findall_child (XS @ ''element'') root = es1 @ e # es2"
    and "\<forall>e'\<in>set es2. get e' ''name'' \<noteq> Some n"
    and "get e ''name'' = Some n" and "n \<noteq> []" and "get e ''type'' = Some tn"
    and "tn \<notin> defined_types (docs @ [(Some root, ns)])"
    and "findall_child (XS @ ''complexType'') e = []"
    by blast+
  then show "\<exists>d. map_of (elements (resolve_relationships (parse_files (docs @ [(Some root, ns)])))) n
              = Some d \<and>
           el_name d = Some n \<and> el_attributes d = Some [] \<and> el_children d = Some []"
    by (rule unknown_type_in_run)
next
  assume "truthy (get a ''name'') \<and> map_of type_mapping (get_or a ''type'' ''string'') = None \<and>
    (\<forall>ti. map_of tys (get_or a ''type'' ''string'') = Some ti \<longrightarrow> ti_type ti \<noteq> Some ''enum'')"
  then show "\<exists>d. parse_attribute tys a = Some (the (get a ''name''), d) \<and>
           attr_type d = Some ''string''"
    by (cases "map_of tys (get_or a ''type'' ''string'')") (simp_all add: parse_attribute_def Let_def)
next
  assume "map_of type_map (after_colon s) = None"
  then show "parse_type_name (Some s) = ''string''"
    by (simp add: parse_type_name_def)
next
  show "ti_children (parse_complex_type st te) =
     concat (map (\<lambda>container. refs_of (findall_desc_child container (XS @ ''element'') te))
              [XS @ ''sequence'', XS @ ''choice'', XS @ ''all'']) @
     concat (map (\<lambda>g. the (map_of (groups st) (the (get g ''ref''))))
              (filter (\<lambda>g. truthy (get g ''ref'') \<and>
                            map_of (groups st) (the (get g ''ref'')) \<noteq> None)
                 (findall_desc (XS @ ''group'') te)))"
    by (rule children_parse_complex_type)
next
  assume "map_of (elements st) c = None"
  then show "add_parent p c (elements st) = elements st" by (simp add: add_parent_def)
next
  assume "map_of (elements st) c = None"
  then show "map_of (elements (resolve_relationships st)) c = None"
    by (rule grows_none[OF grows_resolve_relationships])
qed

theorem unknown_references_fall_back_witness:
  "findall_child (XS @ ''element'') ex_lonely_root = [] @ ex_lonely # [] \<and>
   get ex_lonely ''name'' = Some ''Lonely'' \<and> get ex_lonely ''type'' = Some ''MissingType'' \<and>
   ''MissingType'' \<notin>
     defined_types ([(Some ex_group_root, ''wxs'')] @ [(Some ex_lonely_root, ''util'')]) \<and>
   findall_child (XS @ ''complexType'') ex_lonely = [] \<and>
   map fst (types (parse_files [(Some ex_group_root, ''wxs'')])) = [''OuterType''] \<and>
   map fst (groups (parse_files [(Some ex_group_root, ''wxs'')])) = [''G''] \<and>
   (\<exists>d. map_of (elements (resolve_relationships (parse_files
            ([(Some ex_group_root, ''wxs'')] @ [(Some ex_lonely_root, ''util'')])))) ''Lonely''
          = Some d \<and>
        el_name d = Some ''Lonely'' \<and> el_attributes d = Some [] \<and> el_children d = Some []) \<and>
   truthy (get ex_odd_attribute ''name'') \<and>
   map_of type_mapping (get_or ex_odd_attribute ''type'' ''string'') = None \<and>
   (\<exists>d. parse_attribute (types (parse_files [(Some ex_group_root, ''wxs'')])) ex_odd_attribute
          = Some (''Odd'', d) \<and> attr_type d = Some ''string'') \<and>
   map_of type_map (after_colon ''wix:UnknownType'') = None \<and>
   parse_type_name (Some ''wix:UnknownType'') = ''string'' \<and>
   ti_children (parse_complex_type (parse_files [(Some ex_group_root, ''wxs'')])
                  ex_mixed_group_type) = [''B'', ''Inner''] \<and>
   map_of (elements (parse_files [(Some ex_group_root, ''wxs'')])) ''Ghost'' = None \<and>
   map_of (elements (resolve_relationships (parse_files [(Some ex_group_root, ''wxs'')])))
     ''Ghost'' = None"
proof -
  let ?st = "parse_files [(Some ex_group_root, ''wxs'')]"
  let ?docs = "[(Some ex_group_root, ''wxs'')]"
  note c = unknown_references_fall_back[where root = ex_lonely_root and ?es1.0 = "[]"
      and e = ex_lonely and ?es2.0 = "[]" and n = "''Lonely''" and tn = "''MissingType''"
      and docs = ?docs and ns = "''util''" and a = ex_odd_attribute and tys = "types ?st"
      and s = "''wix:UnknownType''" and st = ?st and te = ex_mixed_group_type
      and c = "''Ghost''" and p = "''Outer''"]
  have e0: "findall_child (XS @ ''element'') ex_lonely_root = [] @ ex_lonely # []" by code_simp
  have e1: "get ex_lonely ''name'' = Some ''Lonely''" by code_simp
  have e2: "get ex_lonely ''type'' = Some ''MissingType''" by code_simp
  have e3: "''MissingType'' \<notin> defined_types (?docs @ [(Some ex_lonely_root, ''util'')])"
    by code_simp
  have e4: "findall_child (XS @ ''complexType'') ex_lonely = []" by code_simp
  have e5: "\<forall>e'\<in>set ([] :: xml list). get e' ''name'' \<noteq> Some ''Lonely''" by simp
  have e6: "''Lonely'' \<noteq> []" by simp
  have k1: "map fst (types ?st) = [''OuterType'']" by code_simp
  have k2: "map fst (groups ?st) = [''G'']" by code_simp
  have a1: "truthy (get ex_odd_attribute ''name'')" by code_simp
  have a2: "map_of type_mapping (get_or ex_odd_attribute ''type'' ''string'') = None" by code_simp
  have "map_of (types ?st) (get_or ex_odd_attribute ''type'' ''string'') = None" by code_simp
  then have a3: "\<forall>ti. map_of (types ?st) (get_or ex_odd_attribute ''type'' ''string'') = Some ti
        \<longrightarrow> ti_type ti \<noteq> Some ''enum''"
    by simp
  have a4: "the (get ex_odd_attribute ''name'') = ''Odd''" by code_simp
  have t1: "map_of type_map (after_colon ''wix:UnknownType'') = None" by code_simp
  have g2: "concat (map (\<lambda>container. refs_of (findall_desc_child container (XS @ ''element'')
                                        ex_mixed_group_type))
                 [XS @ ''sequence'', XS @ ''choice'', XS @ ''all'']) @
     concat (map (\<lambda>g. the (map_of (groups ?st) (the (get g ''ref''))))
              (filter (\<lambda>g. truthy (get g ''ref'') \<and>
                            map_of (groups ?st) (the (get g ''ref'')) \<noteq> None)
                 (findall_desc (XS @ ''group'') ex_mixed_group_type))) = [''B'', ''Inner'']"
    by code_simp
  have r1: "map_of (elements ?st) ''Ghost'' = None" by code_simp
  from c e0 e5 e1 e6 e2 e3 e4 have p1:
    "\<exists>d. map_of (elements (resolve_relationships (parse_files
            (?docs @ [(Some ex_lonely_root, ''util'')])))) ''Lonely'' = Some d \<and>
         el_name d = Some ''Lonely'' \<and> el_attributes d = Some [] \<and> el_children d = Some []"
    by blast
  from c a1 a2 a3 have
    "\<exists>d. parse_attribute (types ?st) ex_odd_attribute =
            Some (the (get ex_odd_attribute ''name''), d) \<and> attr_type d = Some ''string''"
    by blast
  then have p2: "\<exists>d. parse_attribute (types ?st) ex_odd_attribute = Some (''Odd'', d) \<and>
      attr_type d = Some ''string''"
    by (simp only: a4)
  from c t1 have p3: "parse_type_name (Some ''wix:UnknownType'') = ''string''" by blast
  from c have "ti_children (parse_complex_type ?st ex_mixed_group_type) =
     concat (map (\<lambda>container. refs_of (findall_desc_child container (XS @ ''element'')
                                        ex_mixed_group_type))
                 [XS @ ''sequence'', XS @ ''choice'', XS @ ''all'']) @
     concat (map (\<lambda>g. the (map_of (groups ?st) (the (get g ''ref''))))
              (filter (\<lambda>g. truthy (get g ''ref'') \<and>
                            map_of (groups ?st) (the (get g ''ref'')) \<noteq> None)
                 (findall_desc (XS @ ''group'') ex_mixed_group_type)))"
    by (elim conjE)
  then have p4: "ti_children (parse_complex_type ?st ex_mixed_group_type) = [''B'', ''Inner'']"
    by (simp only: g2)
  from c r1 have p5: "map_of (elements (resolve_relationships ?st)) ''Ghost'' = None" by blast
  show ?thesis
    by (intro conjI) (fact e0 e1 e2 e3 e4 k1 k2 p1 a1 a2 p2 t1 p3 p4 r1 p5)+
qed

section \<open>A schema file that is not well-formed\<close>












section \<open>The merge and write stage\<close>

text \<open>
  Claim C4 as stated fails: without \<^verbatim>\<open>--force\<close> an element whose file exists is skipped.
  The directory holds a curated \<open>outer.json\<close> without children, the run extracts \<open>Outer\<close>
  with the child \<open>Inner\<close>, and afterwards the file is what it was, not the merge.
\<close>

theorem existing_descriptor_skipped_without_force:
  "load_existing_element ex_disk ''Outer'' = Some ex_old_outer \<and>
   fst (snd (main (ex_args False False) all_writable (Schemas [(Some ex_root, ''wxs'')]) ex_disk))
     ''outer.json'' = Some (Json ex_old_outer) \<and>
   get_children ex_old_outer = [] \<and>
   map_of (elements (resolve_relationships (parse_files [(Some ex_root, ''wxs'')]))) ''Outer''
     = Some ex_outer \<and>
   get_children (merge_element ex_old_outer ex_outer) = [''Inner''] \<and>
   skipped (snd (snd (main (ex_args False False) all_writable
     (Schemas [(Some ex_root, ''wxs'')]) ex_disk))) = 1"
  by code_simp

text \<open>
  Claim C4, amended. For an element of the run: when a file for it loads as a non-empty
  descriptor and \<^verbatim>\<open>--force\<close> is given, the merge of the file's descriptor with the
  extraction is written (under the name the file's descriptor carries) and counted as
  updated; when such a file exists and \<^verbatim>\<open>--force\<close> is not given, nothing is written and
  the element is counted as skipped; when no such file exists, the extraction is written
  and counted as created. A write needs a writable file and no \<^verbatim>\<open>--dry-run\<close>; a dry run
  leaves the directory as it is.
\<close>

theorem process_element_cases:
  "(load_existing_element dk nm = Some existing \<and> dict_truthy (Some existing) \<and> force a \<and>
    \<not> dry_run a \<and> el_name existing = Some n \<and> can_write (file_path n) \<longrightarrow>
      process_element a can_write (nm, element) (dk, cnt) =
        Inr (dk(file_path n \<mapsto> Json (with_schema (merge_element existing element))),
             cnt\<lparr>updated := updated cnt + 1\<rparr>)) \<and>
   (dict_truthy (load_existing_element dk nm) \<and> \<not> force a \<longrightarrow>
      process_element a can_write (nm, element) (dk, cnt) =
        Inr (dk, cnt\<lparr>skipped := skipped cnt + 1\<rparr>)) \<and>
   (\<not> dict_truthy (load_existing_element dk nm) \<and> \<not> dry_run a \<and> el_name element = Some n \<and>
    can_write (file_path n) \<longrightarrow>
      process_element a can_write (nm, element) (dk, cnt) =
        Inr (dk(file_path n \<mapsto> Json (with_schema element)), cnt\<lparr>created := created cnt + 1\<rparr>)) \<and>
   (dry_run a \<longrightarrow>
      (\<forall>s'. process_element a can_write (nm, element) (dk, cnt) = Inr s' \<longrightarrow> fst s' = dk))"
proof (intro conjI impI allI)
  assume "load_existing_element dk nm = Some existing \<and> dict_truthy (Some existing) \<and> force a \<and>
    \<not> dry_run a \<and> el_name existing = Some n \<and> can_write (file_path n)"
  moreover have "el_name (merge_element existing element) = el_name existing"
    by (simp add: merge_element_def Let_def)
  ultimately show "process_element a can_write (nm, element) (dk, cnt) =
        Inr (dk(file_path n \<mapsto> Json (with_schema (merge_element existing element))),
             cnt\<lparr>updated := updated cnt + 1\<rparr>)"
    by (simp add: process_element_def Let_def write_element_def)
next
  assume "dict_truthy (load_existing_element dk nm) \<and> \<not> force a"
  then show "process_element a can_write (nm, element) (dk, cnt) =
        Inr (dk, cnt\<lparr>skipped := skipped cnt + 1\<rparr>)"
    by (simp add: process_element_def Let_def)
next
  assume "\<not> dict_truthy (load_existing_element dk nm) \<and> \<not> dry_run a \<and> el_name element = Some n \<and>
    can_write (file_path n)"
  then show "process_element a can_write (nm, element) (dk, cnt) =
        Inr (dk(file_path n \<mapsto> Json (with_schema element)), cnt\<lparr>created := created cnt + 1\<rparr>)"
    by (simp add: process_element_def Let_def write_element_def)
next
  fix s'
  assume "dry_run a" and "process_element a can_write (nm, element) (dk, cnt) = Inr s'"
  then show "fst s' = dk"
    by (auto simp: process_element_def Let_def write_element_def
        split: if_splits option.splits sum.splits)
qed

theorem process_element_cases_witness:
  "load_existing_element ex_disk ''Outer'' = Some ex_old_outer \<and>
   dict_truthy (Some ex_old_outer) \<and> el_name ex_old_outer = Some ''Outer'' \<and>
   process_element (ex_args True False) all_writable (''Outer'', ex_outer) (ex_disk, no_counts) =
     Inr (ex_disk(file_path ''Outer'' \<mapsto> Json (with_schema (merge_element ex_old_outer ex_outer))),
          no_counts\<lparr>updated := updated no_counts + 1\<rparr>) \<and>
   process_element (ex_args False False) all_writable (''Outer'', ex_outer) (ex_disk, no_counts) =
     Inr (ex_disk, no_counts\<lparr>skipped := skipped no_counts + 1\<rparr>) \<and>
   \<not> dict_truthy (load_existing_element ex_disk ''Inner'') \<and> el_name ex_inner = Some ''Inner'' \<and>
   process_element (ex_args False False) all_writable (''Inner'', ex_inner) (ex_disk, no_counts) =
     Inr (ex_disk(file_path ''Inner'' \<mapsto> Json (with_schema ex_inner)),
          no_counts\<lparr>created := created no_counts + 1\<rparr>) \<and>
   dry_run (ex_args False True) \<and>
   process_element (ex_args False True) all_writable (''Inner'', ex_inner) (ex_disk, no_counts) =
     Inr (ex_disk, no_counts\<lparr>created := created no_counts + 1\<rparr>)"
proof -
  have l: "load_existing_element ex_disk ''Outer'' = Some ex_old_outer" by code_simp
  have t: "dict_truthy (Some ex_old_outer)" by code_simp
  have n: "el_name ex_old_outer = Some ''Outer''" by code_simp
  have li: "\<not> dict_truthy (load_existing_element ex_disk ''Inner'')" by code_simp
  have ni: "el_name ex_inner = Some ''Inner''" by code_simp
  have f1: "force (ex_args True False)" "\<not> dry_run (ex_args True False)"
    by (simp_all add: ex_args_def)
  have f2: "\<not> force (ex_args False False)" "\<not> dry_run (ex_args False False)"
    by (simp_all add: ex_args_def)
  have f3: "dry_run (ex_args False True)" by (simp add: ex_args_def)
  have t': "dict_truthy (load_existing_element ex_disk ''Outer'')" using l t by simp
  have w: "all_writable path" for path by (simp add: all_writable_def)
  from process_element_cases[of ex_disk "''Outer''" ex_old_outer "ex_args True False" "''Outer''"
      all_writable ex_outer no_counts] l t n f1 w
  have c1: "process_element (ex_args True False) all_writable (''Outer'', ex_outer) (ex_disk, no_counts) =
     Inr (ex_disk(file_path ''Outer'' \<mapsto> Json (with_schema (merge_element ex_old_outer ex_outer))),
          no_counts\<lparr>updated := updated no_counts + 1\<rparr>)"
    by blast
  from process_element_cases[of ex_disk "''Outer''" ex_old_outer "ex_args False False" "''Outer''"
      all_writable ex_outer no_counts] t' f2
  have c2: "process_element (ex_args False False) all_writable (''Outer'', ex_outer) (ex_disk, no_counts) =
     Inr (ex_disk, no_counts\<lparr>skipped := skipped no_counts + 1\<rparr>)"
    by blast
  from process_element_cases[of ex_disk "''Inner''" ex_old_outer "ex_args False False" "''Inner''"
      all_writable ex_inner no_counts] li ni f2 w
  have c3: "process_element (ex_args False False) all_writable (''Inner'', ex_inner) (ex_disk, no_counts) =
     Inr (ex_disk(file_path ''Inner'' \<mapsto> Json (with_schema ex_inner)),
          no_counts\<lparr>created := created no_counts + 1\<rparr>)"
    by blast
  have v: "process_element (ex_args False True) all_writable (''Inner'', ex_inner) (ex_disk, no_counts) =
     Inr (ex_disk, no_counts\<lparr>created := created no_counts + 1\<rparr>)"
    using li ni f3 by (simp add: process_element_def Let_def write_element_def)
  show ?thesis
    by (intro conjI) (fact l t n c1 c2 li ni c3 f3 v)+
qed

end
